theory Spec2Isabelle
  imports Main
begin

section \<open>JSON scalars\<close>

text \<open>
  The values carried by the fields of webhook and broadcast messages. A field that is
  missing from an object reads as \<open>Undefined\<close>. Identifiers, dispositions and scores are
  scalars, the numbers among them integers; on scalars the strict comparison
  \<^verbatim>\<open>===\<close> of the source is equality of the values below (a JSON text cannot denote
  NaN).
\<close>

datatype jsval = Undefined | JNull | JBool bool | JNum int | JStr string

text \<open>The values for which \<^verbatim>\<open>v || d\<close> yields \<open>d\<close>.\<close>

fun falsy :: "jsval \<Rightarrow> bool" where
  "falsy Undefined = True"
| "falsy JNull = True"
| "falsy (JBool b) = (\<not> b)"
| "falsy (JNum n) = (n = 0)"
| "falsy (JStr s) = (s = [])"

definition js_or :: "jsval \<Rightarrow> jsval \<Rightarrow> jsval" where
  "js_or v d = (if falsy v then d else v)"

section \<open>Dashboard state reconciler (frontend/src/App.jsx)\<close>

text \<open>The broadcast message as \<open>handleWebSocketMessage\<close> reads it.\<close>

record message =
  m_type :: jsval
  m_call_id :: jsval
  m_lead_id :: jsval
  m_lead_name :: jsval
  m_timestamp :: jsval
  m_disposition :: jsval
  m_cx_score :: jsval
  m_summary :: jsval

text \<open>An element of the \<open>activeCalls\<close> array.\<close>

record active_call =
  ac_call_id :: jsval
  ac_lead_id :: jsval
  ac_lead_name :: jsval
  ac_timestamp :: jsval

text \<open>An element of the \<open>recentResults\<close> array; its timestamp is the client's clock.\<close>

record recent_result =
  rr_call_id :: jsval
  rr_disposition :: jsval
  rr_cx_score :: jsval
  rr_summary :: jsval
  rr_timestamp :: string

text \<open>
  What the handler reads from the browser: the ISO string of \<^verbatim>\<open>new Date()\<close> and whether
  \<^verbatim>\<open>Notification.permission === 'granted'\<close>.
\<close>

record browser =
  b_now_iso :: string
  b_permission_granted :: bool

text \<open>
  The two React state arrays, and the desktop notifications shown so far (each with the
  disposition and score its body is built from).
\<close>

record app_state =
  activeCalls :: "active_call list"
  recentResults :: "recent_result list"
  notifications :: "(jsval \<times> jsval) list"

definition app_init :: app_state where
  "app_init = \<lparr>activeCalls = [], recentResults = [], notifications = []\<rparr>"

definition active_entry :: "message \<Rightarrow> active_call" where
  "active_entry m =
     \<lparr>ac_call_id = m_call_id m, ac_lead_id = m_lead_id m,
      ac_lead_name = m_lead_name m, ac_timestamp = m_timestamp m\<rparr>"

definition result_entry :: "browser \<Rightarrow> message \<Rightarrow> recent_result" where
  "result_entry b m =
     \<lparr>rr_call_id = m_call_id m, rr_disposition = m_disposition m,
      rr_cx_score = m_cx_score m, rr_summary = m_summary m,
      rr_timestamp = b_now_iso b\<rparr>"

text \<open>
  \<open>handleWebSocketMessage\<close>: the three branches of the source, in its order; a message
  of any other type changes nothing. \<^verbatim>\<open>slice(0, 10)\<close> is \<open>take 10\<close>.
\<close>

definition handleWebSocketMessage :: "browser \<Rightarrow> message \<Rightarrow> app_state \<Rightarrow> app_state" where
  "handleWebSocketMessage b m s =
     (if m_type m = JStr ''call_started'' then
        s\<lparr>activeCalls := activeCalls s @ [active_entry m]\<rparr>
      else if m_type m = JStr ''call_ended'' then
        s\<lparr>activeCalls := filter (\<lambda>c. ac_call_id c \<noteq> m_call_id m) (activeCalls s)\<rparr>
      else if m_type m = JStr ''call_result'' then
        s\<lparr>recentResults := take 10 (result_entry b m # recentResults s),
          notifications :=
            (if b_permission_granted b
             then notifications s @ [(m_disposition m, m_cx_score m)]
             else notifications s)\<rparr>
      else s)"

text \<open>A sequence of deliveries, each with the browser's state at that moment.\<close>

fun handle_all :: "(browser \<times> message) list \<Rightarrow> app_state \<Rightarrow> app_state" where
  "handle_all [] s = s"
| "handle_all ((b, m) # ms) s = handle_all ms (handleWebSocketMessage b m s)"

text \<open>The call ids shown as active.\<close>

definition active_ids :: "app_state \<Rightarrow> jsval list" where
  "active_ids s = map ac_call_id (activeCalls s)"

text \<open>A message of the given type about the given call, its other fields absent.\<close>

definition msg :: "string \<Rightarrow> jsval \<Rightarrow> message" where
  "msg t c =
     \<lparr>m_type = JStr t, m_call_id = c, m_lead_id = Undefined, m_lead_name = Undefined,
      m_timestamp = Undefined, m_disposition = Undefined, m_cx_score = Undefined,
      m_summary = Undefined\<rparr>"

definition browser0 :: browser where
  "browser0 = \<lparr>b_now_iso = ''2025-01-01T00:00:00.000Z'', b_permission_granted = False\<rparr>"

section \<open>Broadcast channel client (frontend/src/hooks/useWebSocket.js)\<close>

text \<open>
  The hook is an event-driven machine: the browser calls the socket handlers, fires the
  timeouts and unmounts the component. Time is a clock in milliseconds that only the
  event \<open>WsElapse\<close> advances; a timeout set at time \<open>t\<close> with delay \<open>d\<close> is due at \<open>t + d\<close>.
\<close>

datatype ready_state = Connecting | Open | Closing | Closed

record ws_hook =
  isConnected :: bool
  lastMessage :: "message option"
  isCleanedUp :: bool
  sockets :: "ready_state list"
  wsRef :: "nat option"
  reconnectTimeoutRef :: "nat option"
  ws_timers :: "(nat \<times> nat) list"
  ws_next_timer :: nat
  ws_clock :: nat
  delivered :: "message option list"
  sent :: "string list"

text \<open>
  \<open>sockets\<close> lists the sockets constructed so far with their \<open>readyState\<close>; \<open>wsRef\<close> is
  the index of the one in \<^verbatim>\<open>wsRef.current\<close>. \<open>ws_timers\<close> holds the pending timeouts as
  (id, due time). \<open>delivered\<close> lists the arguments of the calls of
  \<^verbatim>\<open>onMessageRef.current\<close> (\<open>None\<close> is the argument \<^verbatim>\<open>null\<close>), \<open>sent\<close> the frames
  written to a socket. In \<open>lastMessage\<close>, \<open>None\<close> is \<^verbatim>\<open>null\<close> as well.
\<close>

text \<open>
  What \<^verbatim>\<open>JSON.parse(event.data)\<close> makes of a frame: it throws, or yields \<^verbatim>\<open>null\<close>, or
  yields a value whose fields are read (a number, string or boolean reads as a message
  with every field absent).
\<close>

datatype frame = Unparsable | ParsedNull | Parsed message

datatype ws_event =
    WsOpen nat
  | WsMessage nat frame
  | WsError nat
  | WsClose nat
  | WsElapse nat
  | PingTick
  | Unmount

definition hook_unmounted :: ws_hook where
  "hook_unmounted =
     \<lparr>isConnected = False, lastMessage = None, isCleanedUp = False, sockets = [],
      wsRef = None, reconnectTimeoutRef = None, ws_timers = [], ws_next_timer = 0,
      ws_clock = 0, delivered = [], sent = []\<rparr>"

text \<open>
  \<open>connect\<close>: nothing after cleanup; otherwise a new socket, kept in \<open>wsRef\<close>. When the
  constructor throws (\<open>url_ok\<close> false) the error is logged and nothing else happens.
\<close>

definition connect :: "bool \<Rightarrow> ws_hook \<Rightarrow> ws_hook" where
  "connect url_ok s =
     (if isCleanedUp s then s
      else if url_ok then
        s\<lparr>sockets := sockets s @ [Connecting], wsRef := Some (length (sockets s))\<rparr>
      else s)"

definition reconnect_delay :: nat where
  "reconnect_delay = 3000"

text \<open>\<^verbatim>\<open>setTimeout(cb, delay)\<close>, its id stored in \<open>reconnectTimeoutRef\<close>.\<close>

definition schedule_reconnect :: "ws_hook \<Rightarrow> ws_hook" where
  "schedule_reconnect s =
     s\<lparr>ws_timers := ws_timers s @ [(ws_next_timer s, ws_clock s + reconnect_delay)],
       reconnectTimeoutRef := Some (ws_next_timer s),
       ws_next_timer := Suc (ws_next_timer s)\<rparr>"

text \<open>The timeout's callback.\<close>

definition reconnect_cb :: "bool \<Rightarrow> ws_hook \<Rightarrow> ws_hook" where
  "reconnect_cb url_ok s = (if isCleanedUp s then s else connect url_ok s)"

text \<open>Run the callbacks of the timeouts that are due, in the order they were set.\<close>

fun fire_due :: "bool \<Rightarrow> (nat \<times> nat) list \<Rightarrow> ws_hook \<Rightarrow> ws_hook" where
  "fire_due url_ok [] s = s"
| "fire_due url_ok ((i, due) # ts) s =
     (if due \<le> ws_clock s
      then fire_due url_ok ts
             (reconnect_cb url_ok (s\<lparr>ws_timers := filter (\<lambda>t. fst t \<noteq> i) (ws_timers s)\<rparr>))
      else fire_due url_ok ts s)"

definition set_ready :: "nat \<Rightarrow> ready_state \<Rightarrow> ws_hook \<Rightarrow> ws_hook" where
  "set_ready i r s = s\<lparr>sockets := (sockets s)[i := r]\<rparr>"

text \<open>
  \<open>sendMessage\<close> writes only to an open \<^verbatim>\<open>wsRef.current\<close>; otherwise it warns on the
  console.
\<close>

definition sendMessage :: "string \<Rightarrow> ws_hook \<Rightarrow> ws_hook" where
  "sendMessage frame s =
     (case wsRef s of
        None \<Rightarrow> s
      | Some i \<Rightarrow>
          if i < length (sockets s) \<and> sockets s ! i = Open
          then s\<lparr>sent := sent s @ [frame]\<rparr> else s)"

text \<open>
  One event of the browser. Handlers exist only on sockets that were constructed. A
  frame whose text does not parse is logged and dropped; any other is stored in
  \<open>lastMessage\<close> and handed to \<open>onMessage\<close>, \<^verbatim>\<open>null\<close> included (\<open>handleWebSocketMessage\<close>
  then throws when it reads the type, which the handler of the socket catches). The
  ping interval runs while \<open>isConnected\<close> holds and the component is mounted.
  Unmounting clears the timeout in \<open>reconnectTimeoutRef\<close> (the ids of the browser's
  timeouts are positive, hence truthy) and closes \<^verbatim>\<open>wsRef.current\<close>.
\<close>

fun hook_step :: "bool \<Rightarrow> ws_event \<Rightarrow> ws_hook \<Rightarrow> ws_hook" where
  "hook_step url_ok (WsOpen i) s =
     (if i < length (sockets s) then
        (let s1 = set_ready i Open s in
         if isCleanedUp s1 then s1 else s1\<lparr>isConnected := True\<rparr>)
      else s)"
| "hook_step url_ok (WsMessage i d) s =
     (if i < length (sockets s) \<and> \<not> isCleanedUp s then
        (case d of
           Unparsable \<Rightarrow> s
         | ParsedNull \<Rightarrow> s\<lparr>lastMessage := None, delivered := delivered s @ [None]\<rparr>
         | Parsed m \<Rightarrow> s\<lparr>lastMessage := Some m, delivered := delivered s @ [Some m]\<rparr>)
      else s)"
| "hook_step url_ok (WsError i) s = s"
| "hook_step url_ok (WsClose i) s =
     (if i < length (sockets s) then
        (let s1 = set_ready i Closed s in
         if isCleanedUp s1 then s1
         else schedule_reconnect (s1\<lparr>isConnected := False\<rparr>))
      else s)"
| "hook_step url_ok (WsElapse d) s =
     (let s1 = s\<lparr>ws_clock := ws_clock s + d\<rparr> in fire_due url_ok (ws_timers s1) s1)"
| "hook_step url_ok PingTick s =
     (if isConnected s \<and> \<not> isCleanedUp s
      then sendMessage ''{\"type\":\"ping\"}'' s else s)"
| "hook_step url_ok Unmount s =
     (let s1 = s\<lparr>isCleanedUp := True\<rparr>;
          s2 = (case reconnectTimeoutRef s1 of
                  None \<Rightarrow> s1
                | Some t \<Rightarrow> s1\<lparr>ws_timers := filter (\<lambda>x. fst x \<noteq> t) (ws_timers s1)\<rparr>)
      in case wsRef s2 of
           None \<Rightarrow> s2
         | Some i \<Rightarrow>
             if i < length (sockets s2) \<and> sockets s2 ! i \<noteq> Closed
             then set_ready i Closing s2 else s2)"

text \<open>Mounting the component runs \<open>connect\<close> once.\<close>

definition hook_mount :: "bool \<Rightarrow> ws_hook" where
  "hook_mount url_ok = connect url_ok hook_unmounted"

fun hook_run :: "bool \<Rightarrow> ws_event list \<Rightarrow> ws_hook \<Rightarrow> ws_hook" where
  "hook_run url_ok [] s = s"
| "hook_run url_ok (e # es) s = hook_run url_ok es (hook_step url_ok e s)"

section \<open>Call scenario runtime (voximplant/scenarios)\<close>

text \<open>
  The two scenarios (registration recovery, dormant reactivation) differ in their prompt,
  their disposition names and the name of one context field (\<^verbatim>\<open>drop_stage\<close>,
  \<^verbatim>\<open>last_active\<close>); their control flow is the same and is modelled once.

  A scenario is a set of callbacks run by a single-threaded event loop. Each \<^verbatim>\<open>await\<close>
  ends a step: what follows it is a continuation that runs when the awaited promise
  settles. The state below holds the pending promises with their continuations, and the
  environment (carrier, AI engine, HTTP client, clock) is the source of the events.

  The exceptions of the set-up are those the source's own expressions raise (the parse of
  the custom data, a field read from \<^verbatim>\<open>null\<close>) and the rejection of the AI-engine
  connection; the platform calls \<^verbatim>\<open>call.answer\<close>, \<^verbatim>\<open>sendMediaBetween\<close>,
  \<^verbatim>\<open>addEventListener\<close> and \<^verbatim>\<open>sendToolResponse\<close> are taken to return.
\<close>

text \<open>
  The value of \<^verbatim>\<open>JSON.parse(call.customData())\<close>: the parse throws, or yields
  \<^verbatim>\<open>null\<close> (reading a field of it throws), or yields an object with the fields read
  from it. A number, string or boolean reads as an object with every field absent.
\<close>

record lead_data =
  ld_call_id :: jsval
  ld_lead_id :: jsval
  ld_name :: jsval
  ld_type :: jsval
  ld_phone :: jsval
  ld_context :: jsval

datatype custom_data = Malformed string | JsonNull | LeadObject lead_data

text \<open>
  The message of the TypeError raised by reading \<^verbatim>\<open>leadData.call_id\<close>, the first field
  read, when \<^verbatim>\<open>leadData\<close> is \<^verbatim>\<open>null\<close>.
\<close>

definition null_field_message :: string where
  "null_field_message = ''Cannot read properties of null (reading 'call_id')''"

text \<open>\<open>callData\<close>; the empty object \<^verbatim>\<open>{}\<close> has every field absent.\<close>

record call_data =
  cd_call_id :: jsval
  cd_lead_id :: jsval
  cd_lead_name :: jsval
  cd_lead_type :: jsval
  cd_context :: jsval

definition empty_call_data :: call_data where
  "empty_call_data =
     \<lparr>cd_call_id = Undefined, cd_lead_id = Undefined, cd_lead_name = Undefined,
      cd_lead_type = Undefined, cd_context = Undefined\<rparr>"

text \<open>
  An object literal passed to \<open>sendWebhook\<close>, as its fields in order.
  \<^verbatim>\<open>JSON.stringify\<close> leaves out the fields whose value is \<^verbatim>\<open>undefined\<close>.
\<close>

type_synonym payload = "(string \<times> jsval) list"

definition field :: "payload \<Rightarrow> string \<Rightarrow> jsval" where
  "field p k = (case map_of p k of None \<Rightarrow> Undefined | Some v \<Rightarrow> v)"

definition json_stringify :: "payload \<Rightarrow> payload" where
  "json_stringify p = filter (\<lambda>kv. snd kv \<noteq> Undefined) p"

text \<open>
  The argument of a \<open>ToolCall\<close> event. \<open>fc_has_parameters\<close> says whether
  \<^verbatim>\<open>functionCall.parameters\<close> is an object; the three fields are read from it, and
  reading them from a missing object throws.
\<close>

record function_call =
  fc_id :: jsval
  fc_name :: jsval
  fc_has_parameters :: bool
  fc_disposition :: jsval
  fc_cx_score :: jsval
  fc_summary :: jsval

text \<open>How the promise of \<^verbatim>\<open>Net.httpRequestAsync\<close> settles: a response with its status
  code, or a rejection with the error's message.\<close>

datatype http_outcome = Resolved int | Rejected string

text \<open>What runs after an awaited \<open>sendWebhook\<close>, one continuation per call site.\<close>

datatype cont =
    AfterStarted
  | AfterResult function_call
  | AfterEnded
  | AfterError

text \<open>The lines written to the log (consecutive writes of one place are one entry).\<close>

datatype log_line =
    LCallAnswered
  | LCalling jsval jsval jsval
  | LInitGemini
  | LGeminiConnected
  | LAudioBridge
  | LGeminiSocketClosed
  | LFunctionCalled function_call
  | LSavingResult
  | LResultSaved jsval jsval jsval
  | LHangingUp
  | LCallDisconnected
  | LCallFailed
  | LScenarioError string
  | LWebhookSent jsval
  | LWebhookFailed string

text \<open>The calls into the platform, in the order they are made.\<close>

datatype action =
    Answer
  | Log log_line
  | HttpPost nat payload
  | CreateLiveAPIClient
  | SendMediaBetween
  | SendToolResponse jsval
  | SetTimeout nat nat
  | Hangup
  | GeminiClose
  | Terminate

record runtime =
  callData :: call_data
  geminiClient :: bool
  connecting :: bool
  listening :: bool
  pending :: "(nat \<times> payload \<times> cont) list"
  next_req :: nat
  rt_timers :: "(nat \<times> nat) list"
  rt_next_timer :: nat
  rt_clock :: nat
  terminated :: bool
  trace :: "action list"

text \<open>
  \<open>geminiClient\<close> says whether the variable is non-null; \<open>connecting\<close> that the promise
  of \<^verbatim>\<open>createLiveAPIClient\<close> is pending; \<open>listening\<close> that the \<open>ToolCall\<close>,
  \<open>Disconnected\<close> and \<open>Failed\<close> listeners are registered (the source registers the three
  in one synchronous run). \<open>pending\<close> holds the webhook requests in flight, each with its
  body and the continuation awaiting it. \<open>terminated\<close> is set by
  \<^verbatim>\<open>VoxEngine.terminate()\<close>, after which no callback runs.
\<close>

datatype rt_event =
    HttpDone nat http_outcome
  | GeminiReady
  | GeminiRejected string
  | GeminiSocketClosed
  | ToolCall function_call
  | Disconnected
  | Failed
  | Elapse nat

definition runtime_init :: runtime where
  "runtime_init =
     \<lparr>callData = empty_call_data, geminiClient = False, connecting = False,
      listening = False, pending = [], next_req = 0, rt_timers = [], rt_next_timer = 0,
      rt_clock = 0, terminated = False, trace = []\<rparr>"

definition emit :: "action \<Rightarrow> runtime \<Rightarrow> runtime" where
  "emit a s = s\<lparr>trace := trace s @ [a]\<rparr>"

text \<open>
  \<open>sendWebhook\<close> up to its \<^verbatim>\<open>await\<close>: one request is issued. The caller awaits
  \<open>sendWebhook\<close>, so its continuation \<open>k\<close> waits for the same request.
\<close>

definition sendWebhook :: "payload \<Rightarrow> cont \<Rightarrow> runtime \<Rightarrow> runtime" where
  "sendWebhook data k s =
     (emit (HttpPost (next_req s) data) s)
       \<lparr>pending := pending s @ [(next_req s, data, k)], next_req := Suc (next_req s)\<rparr>"

text \<open>\<open>sendWebhook\<close> after its \<^verbatim>\<open>await\<close>: one log line, whatever the outcome.\<close>

definition webhook_settled :: "http_outcome \<Rightarrow> payload \<Rightarrow> runtime \<Rightarrow> runtime" where
  "webhook_settled out data s =
     (case out of
        Resolved code \<Rightarrow> emit (Log (LWebhookSent (field data ''type''))) s
      | Rejected e \<Rightarrow> emit (Log (LWebhookFailed e)) s)"

definition call_started_payload :: "call_data \<Rightarrow> jsval \<Rightarrow> string \<Rightarrow> payload" where
  "call_started_payload cd vox_id now_iso =
     [(''type'', JStr ''call_started''), (''call_id'', cd_call_id cd),
      (''lead_id'', cd_lead_id cd), (''lead_name'', cd_lead_name cd),
      (''lead_type'', cd_lead_type cd), (''voximplant_call_id'', vox_id),
      (''timestamp'', JStr now_iso)]"

definition call_result_payload :: "call_data \<Rightarrow> function_call \<Rightarrow> payload" where
  "call_result_payload cd fc =
     [(''type'', JStr ''call_result''), (''call_id'', cd_call_id cd),
      (''lead_id'', cd_lead_id cd), (''disposition'', fc_disposition fc),
      (''cx_score'', fc_cx_score fc), (''summary'', fc_summary fc)]"

definition call_ended_payload :: "call_data \<Rightarrow> payload" where
  "call_ended_payload cd = [(''type'', JStr ''call_ended''), (''call_id'', cd_call_id cd)]"

definition call_error_payload :: "call_data \<Rightarrow> string \<Rightarrow> payload" where
  "call_error_payload cd e =
     [(''type'', JStr ''call_error''), (''call_id'', cd_call_id cd), (''error'', JStr e)]"

text \<open>The \<^verbatim>\<open>catch\<close> block of the handler, up to its \<^verbatim>\<open>await\<close>.\<close>

definition catch_block :: "string \<Rightarrow> runtime \<Rightarrow> runtime" where
  "catch_block e s =
     sendWebhook (call_error_payload (callData s) e) AfterError
       (emit (Log (LScenarioError e)) s)"

definition hangup_delay :: nat where
  "hangup_delay = 4000"

text \<open>\<^verbatim>\<open>setTimeout(cb, delay)\<close>: the callback is due \<open>delay\<close> after the present.\<close>

definition setTimeout :: "nat \<Rightarrow> runtime \<Rightarrow> runtime" where
  "setTimeout delay s =
     (emit (SetTimeout (rt_next_timer s) delay) s)
       \<lparr>rt_timers := rt_timers s @ [(rt_next_timer s, rt_clock s + delay)],
        rt_next_timer := Suc (rt_next_timer s)\<rparr>"

text \<open>The code that follows each awaited \<open>sendWebhook\<close>.\<close>

fun run_cont :: "cont \<Rightarrow> runtime \<Rightarrow> runtime" where
  "run_cont AfterStarted s =
     (emit CreateLiveAPIClient (emit (Log LInitGemini) s))\<lparr>connecting := True\<rparr>"
| "run_cont (AfterResult fc) s =
     setTimeout hangup_delay
       (emit (Log (LResultSaved (fc_disposition fc) (fc_cx_score fc) (fc_summary fc)))
          (emit (SendToolResponse (fc_id fc)) s))"
| "run_cont AfterEnded s =
     (emit Terminate (if geminiClient s then emit GeminiClose s else s))
       \<lparr>terminated := True\<rparr>"
| "run_cont AfterError s =
     (emit Terminate (emit Hangup s))\<lparr>terminated := True\<rparr>"

text \<open>
  The \<open>CallAlerting\<close> handler up to its first \<^verbatim>\<open>await\<close>, from the custom data, the id
  of the call leg and the ISO string of the clock.
\<close>

definition on_call_alerting :: "custom_data \<Rightarrow> jsval \<Rightarrow> string \<Rightarrow> runtime" where
  "on_call_alerting cdata vox_id now_iso =
     (let s0 = emit (Log LCallAnswered) (emit Answer runtime_init) in
      case cdata of
        Malformed e \<Rightarrow> catch_block e s0
      | JsonNull \<Rightarrow> catch_block null_field_message s0
      | LeadObject ld \<Rightarrow>
          (let cd = \<lparr>cd_call_id = ld_call_id ld, cd_lead_id = ld_lead_id ld,
                     cd_lead_name = ld_name ld, cd_lead_type = ld_type ld,
                     cd_context = js_or (ld_context ld) (JStr ''unknown'')\<rparr>;
               s1 = emit (Log (LCalling (ld_name ld) (ld_phone ld) (ld_context ld)))
                      (s0\<lparr>callData := cd\<rparr>)
           in sendWebhook (call_started_payload cd vox_id now_iso) AfterStarted s1))"

text \<open>The callback of the timeout set after a result: it hangs up.\<close>

definition hangup_cb :: "runtime \<Rightarrow> runtime" where
  "hangup_cb s = emit Hangup (emit (Log LHangingUp) s)"

fun rt_fire_due :: "(nat \<times> nat) list \<Rightarrow> runtime \<Rightarrow> runtime" where
  "rt_fire_due [] s = s"
| "rt_fire_due ((i, due) # ts) s =
     (if due \<le> rt_clock s
      then rt_fire_due ts (hangup_cb (s\<lparr>rt_timers := filter (\<lambda>t. fst t \<noteq> i) (rt_timers s)\<rparr>))
      else rt_fire_due ts s)"

text \<open>The request with the given id among those in flight.\<close>

fun find_req :: "nat \<Rightarrow> (nat \<times> payload \<times> cont) list \<Rightarrow> (payload \<times> cont) option" where
  "find_req i [] = None"
| "find_req i ((j, d, k) # rs) = (if i = j then Some (d, k) else find_req i rs)"

text \<open>
  One event. After \<^verbatim>\<open>VoxEngine.terminate()\<close> nothing runs. A carrier or AI-engine event
  for which no listener is registered is dropped.
\<close>

fun rt_handle :: "rt_event \<Rightarrow> runtime \<Rightarrow> runtime" where
  "rt_handle (HttpDone i out) s =
     (case find_req i (pending s) of
        None \<Rightarrow> s
      | Some (data, k) \<Rightarrow>
          run_cont k
            (webhook_settled out data
               (s\<lparr>pending := filter (\<lambda>r. fst r \<noteq> i) (pending s)\<rparr>)))"
| "rt_handle GeminiReady s =
     (if connecting s then
        (emit (Log LAudioBridge)
           (emit SendMediaBetween
              (emit (Log LGeminiConnected) (s\<lparr>connecting := False, geminiClient := True\<rparr>))))
          \<lparr>listening := True\<rparr>
      else s)"
| "rt_handle (GeminiRejected e) s =
     (if connecting s then catch_block e (s\<lparr>connecting := False\<rparr>) else s)"
| "rt_handle GeminiSocketClosed s =
     (if connecting s \<or> geminiClient s then emit (Log LGeminiSocketClosed) s else s)"
| "rt_handle (ToolCall fc) s =
     (if listening s then
        (let s1 = emit (Log (LFunctionCalled fc)) s in
         if fc_name fc = JStr ''save_call_result'' then
           (if fc_has_parameters fc then
              sendWebhook (call_result_payload (callData s1) fc) (AfterResult fc)
                (emit (Log LSavingResult) s1)
            else s1)
         else s1)
      else s)"
| "rt_handle Disconnected s =
     (if listening s then
        sendWebhook (call_ended_payload (callData s)) AfterEnded
          (emit (Log LCallDisconnected) s)
      else s)"
| "rt_handle Failed s =
     (if listening s then
        sendWebhook (call_ended_payload (callData s)) AfterEnded (emit (Log LCallFailed) s)
      else s)"
| "rt_handle (Elapse d) s =
     (let s1 = s\<lparr>rt_clock := rt_clock s + d\<rparr> in rt_fire_due (rt_timers s1) s1)"

definition rt_step :: "rt_event \<Rightarrow> runtime \<Rightarrow> runtime" where
  "rt_step e s = (if terminated s then s else rt_handle e s)"

fun rt_run :: "rt_event list \<Rightarrow> runtime \<Rightarrow> runtime" where
  "rt_run [] s = s"
| "rt_run (e # es) s = rt_run es (rt_step e s)"

text \<open>The bodies posted so far, in order, and those of one event type.\<close>

fun posts :: "action list \<Rightarrow> payload list" where
  "posts [] = []"
| "posts (HttpPost i d # as) = d # posts as"
| "posts (a # as) = posts as"

definition posts_of_type :: "string \<Rightarrow> runtime \<Rightarrow> payload list" where
  "posts_of_type t s = filter (\<lambda>d. field d ''type'' = JStr t) (posts (trace s))"

text \<open>The trace without its log lines.\<close>

fun is_log :: "action \<Rightarrow> bool" where
  "is_log (Log l) = True"
| "is_log a = False"

definition effects :: "runtime \<Rightarrow> action list" where
  "effects s = filter (\<lambda>a. \<not> is_log a) (trace s)"

section \<open>Notions used in the statements\<close>

text \<open>The \<open>recentResults\<close> entries that a sequence of deliveries gives rise to, oldest first.\<close>

definition results_of :: "(browser \<times> message) list \<Rightarrow> recent_result list" where
  "results_of evs =
     map (\<lambda>(b, m). result_entry b m) (filter (\<lambda>(b, m). m_type m = JStr ''call_result'') evs)"

text \<open>A result message for the call numbered \<open>n\<close>, with score 9.\<close>

definition result_msg :: "int \<Rightarrow> message" where
  "result_msg n = (msg ''call_result'' (JNum n))\<lparr>m_cx_score := JNum 9\<rparr>"

text \<open>A sample call: its context, an outcome reported by the AI engine, and two states.\<close>

definition lead0 :: lead_data where
  "lead0 =
     \<lparr>ld_call_id = JStr ''c1'', ld_lead_id = JNum 7, ld_name = JStr ''Dana'',
      ld_type = JStr ''drop-off'', ld_phone = JStr ''+972500000000'',
      ld_context = JStr ''kyc''\<rparr>"

definition fc0 :: function_call where
  "fc0 =
     \<lparr>fc_id = JStr ''f1'', fc_name = JStr ''save_call_result'',
      fc_has_parameters = True, fc_disposition = JStr ''COMPLETED_REGISTRATION'', fc_cx_score = JNum 9,
      fc_summary = JStr ''ok''\<rparr>"

text \<open>The call has been answered and \<open>call_started\<close> posted; the request is in flight.\<close>

definition start0 :: runtime where
  "start0 =
     on_call_alerting (LeadObject lead0) (JStr ''vox-1'') ''2025-01-01T00:00:00.000Z''"

text \<open>The AI engine is connected and the listeners are registered.\<close>

definition bridged0 :: runtime where
  "bridged0 = rt_run [HttpDone 0 (Resolved 200), GeminiReady] start0"

text \<open>The AI engine is being connected: \<open>call_started\<close> has settled.\<close>

definition connecting0 :: runtime where
  "connecting0 = rt_run [HttpDone 0 (Resolved 200)] start0"

text \<open>The outcome was reported on the bridged call and \<open>call_result\<close> posted.\<close>

definition captured0 :: runtime where
  "captured0 = rt_run [ToolCall fc0] bridged0"

text \<open>
  Ten seconds later the \<open>call_result\<close> request is still in flight; then it settles; then
  two more seconds pass.
\<close>

definition waiting0 :: runtime where
  "waiting0 = rt_run [Elapse 10000] captured0"

definition settled0 :: runtime where
  "settled0 = rt_run [HttpDone 1 (Resolved 200)] waiting0"

definition grace0 :: runtime where
  "grace0 = rt_run [Elapse 2000] settled0"

text \<open>
  The states of a session: those a sequence of events leads to from the state the
  \<open>CallAlerting\<close> handler leaves.
\<close>

definition session :: "custom_data \<Rightarrow> jsval \<Rightarrow> string \<Rightarrow> rt_event list \<Rightarrow> runtime" where
  "session cdata vox_id now_iso es = rt_run es (on_call_alerting cdata vox_id now_iso)"

text \<open>An event with the outcome of its request forgotten.\<close>

fun forget_outcome :: "rt_event \<Rightarrow> rt_event" where
  "forget_outcome (HttpDone i out) = HttpDone i (Resolved 200)"
| "forget_outcome e = e"

text \<open>A state with the log lines taken out of its trace.\<close>

definition strip_logs :: "runtime \<Rightarrow> runtime" where
  "strip_logs s = s\<lparr>trace := effects s\<rparr>"

fun is_tool_call :: "rt_event \<Rightarrow> bool" where
  "is_tool_call (ToolCall fc) = True"
| "is_tool_call e = False"

text \<open>The timeouts that are due once \<open>d\<close> milliseconds have passed.\<close>

definition due_after :: "nat \<Rightarrow> runtime \<Rightarrow> (nat \<times> nat) list" where
  "due_after d s = filter (\<lambda>t. snd t \<le> rt_clock s + d) (rt_timers s)"

text \<open>
  What every state of a session satisfies: the ids of the requests in flight are below the
  next id, and the listeners are registered exactly when the AI-engine client exists.
\<close>

definition session_inv :: "runtime \<Rightarrow> bool" where
  "session_inv s \<longleftrightarrow>
     (\<forall>r \<in> set (pending s). fst r < next_req s) \<and> listening s = geminiClient s"

text \<open>The reconnect timeouts that are due once \<open>d\<close> milliseconds have passed.\<close>

definition ws_due_after :: "nat \<Rightarrow> ws_hook \<Rightarrow> (nat \<times> nat) list" where
  "ws_due_after d s = filter (\<lambda>t. snd t \<le> ws_clock s + d) (ws_timers s)"

text \<open>What an event makes the hook hand to \<open>onMessage\<close>, and what it makes it send.\<close>

fun handed_over :: "ws_event \<Rightarrow> ws_hook \<Rightarrow> message option list" where
  "handed_over (WsMessage i (Parsed m)) s =
     (if i < length (sockets s) \<and> \<not> isCleanedUp s then [Some m] else [])"
| "handed_over (WsMessage i ParsedNull) s =
     (if i < length (sockets s) \<and> \<not> isCleanedUp s then [None] else [])"
| "handed_over e s = []"

fun frames_sent :: "ws_event \<Rightarrow> ws_hook \<Rightarrow> string list" where
  "frames_sent PingTick s =
     (if isConnected s \<and> \<not> isCleanedUp s \<and>
         (case wsRef s of None \<Rightarrow> False
          | Some i \<Rightarrow> i < length (sockets s) \<and> sockets s ! i = Open)
      then [''{\"type\":\"ping\"}''] else [])"
| "frames_sent e s = []"

text \<open>A sample message, and the hook connected for the first time.\<close>

definition started_msg :: message where
  "started_msg = msg ''call_started'' (JStr ''c1'')"

definition connected0 :: ws_hook where
  "connected0 = hook_run True [WsOpen 0, WsMessage 0 (Parsed started_msg)] (hook_mount True)"

text \<open>The first socket has closed and, three seconds later, a second one has opened.\<close>

definition reconnected0 :: ws_hook where
  "reconnected0 = hook_run True [WsClose 0, WsElapse 3000, WsOpen 1] connected0"

text \<open>Whether an event settles the request with the given id.\<close>

fun settles :: "nat \<Rightarrow> rt_event \<Rightarrow> bool" where
  "settles i (HttpDone j out) = (i = j)"
| "settles i e = False"

text \<open>The effects of the code that follows an awaited \<open>sendWebhook\<close>.\<close>

fun cont_effects :: "cont \<Rightarrow> runtime \<Rightarrow> action list" where
  "cont_effects AfterStarted s = [CreateLiveAPIClient]"
| "cont_effects (AfterResult fc) s =
     [SendToolResponse (fc_id fc), SetTimeout (rt_next_timer s) 4000]"
| "cont_effects AfterEnded s = (if geminiClient s then [GeminiClose] else []) @ [Terminate]"
| "cont_effects AfterError s = [Hangup, Terminate]"

text \<open>The log line \<open>sendWebhook\<close> writes when its request settles.\<close>

fun outcome_line :: "http_outcome \<Rightarrow> payload \<Rightarrow> log_line" where
  "outcome_line (Resolved code) d = LWebhookSent (field d ''type'')"
| "outcome_line (Rejected m) d = LWebhookFailed m"

text \<open>All that the code following an awaited \<open>sendWebhook\<close> does, log lines included.\<close>

fun cont_trace :: "cont \<Rightarrow> runtime \<Rightarrow> action list" where
  "cont_trace AfterStarted s = [Log LInitGemini, CreateLiveAPIClient]"
| "cont_trace (AfterResult fc) s =
     [SendToolResponse (fc_id fc),
      Log (LResultSaved (fc_disposition fc) (fc_cx_score fc) (fc_summary fc)),
      SetTimeout (rt_next_timer s) 4000]"
| "cont_trace AfterEnded s = (if geminiClient s then [GeminiClose] else []) @ [Terminate]"
| "cont_trace AfterError s = [Hangup, Terminate]"

text \<open>The bodies an event makes a live session post.\<close>

fun posted_by :: "rt_event \<Rightarrow> runtime \<Rightarrow> payload list" where
  "posted_by (ToolCall fc) s =
     (if listening s \<and> fc_name fc = JStr ''save_call_result'' \<and> fc_has_parameters fc
      then [call_result_payload (callData s) fc] else [])"
| "posted_by Disconnected s = (if listening s then [call_ended_payload (callData s)] else [])"
| "posted_by Failed s = (if listening s then [call_ended_payload (callData s)] else [])"
| "posted_by (GeminiRejected m) s =
     (if connecting s then [call_error_payload (callData s) m] else [])"
| "posted_by e s = []"


text \<open>
  The timeouts of a state have distinct ids, all below the next id.
\<close>

definition timers_inv :: "runtime \<Rightarrow> bool" where
  "timers_inv s \<longleftrightarrow>
     distinct (map fst (rt_timers s)) \<and> (\<forall>t \<in> set (rt_timers s). fst t < rt_next_timer s)"

section \<open>Properties of the reconciler\<close>

lemma take_append_take: "take n (xs @ take n ys) = take n (xs @ ys)"
  by (induction xs arbitrary: n) (auto simp: take_Cons split: nat.splits)

lemma recent_step:
  "recentResults (handleWebSocketMessage b m s) =
     (if m_type m = JStr ''call_result'' then take 10 (result_entry b m # recentResults s)
      else recentResults s)"
  by (simp add: handleWebSocketMessage_def)

lemma active_step:
  "activeCalls (handleWebSocketMessage b m s) =
     (if m_type m = JStr ''call_started'' then activeCalls s @ [active_entry m]
      else if m_type m = JStr ''call_ended''
      then filter (\<lambda>c. ac_call_id c \<noteq> m_call_id m) (activeCalls s)
      else activeCalls s)"
  by (simp add: handleWebSocketMessage_def)

lemma results_of_Cons:
  "results_of ((b, m) # evs) =
     (if m_type m = JStr ''call_result'' then result_entry b m # results_of evs
      else results_of evs)"
  by (simp add: results_of_def)

lemma recent_all:
  assumes "length (recentResults s) \<le> 10"
  shows "recentResults (handle_all evs s) = take 10 (rev (results_of evs) @ recentResults s)"
  using assms
proof (induction evs arbitrary: s)
  case Nil
  then show ?case by (simp add: results_of_def)
next
  case (Cons e evs)
  obtain b m where e: "e = (b, m)" by (cases e)
  let ?s' = "handleWebSocketMessage b m s"
  have len: "length (recentResults ?s') \<le> 10"
    using Cons.prems by (simp only: recent_step split: if_splits) simp
  have "recentResults (handle_all (e # evs) s) =
          take 10 (rev (results_of evs) @ recentResults ?s')"
    using Cons.IH [OF len] by (simp only: e handle_all.simps)
  also have "\<dots> = take 10 (rev (results_of (e # evs)) @ recentResults s)"
  proof (cases "m_type m = JStr ''call_result''")
    case True
    have "take 10 (rev (results_of evs) @ take 10 (result_entry b m # recentResults s))
        = take 10 (rev (results_of evs) @ (result_entry b m # recentResults s))"
      by (rule take_append_take)
    then show ?thesis
      by (simp only: e results_of_Cons recent_step True simp_thms if_True rev.simps
            append_assoc append_Cons append_Nil)
  next
    case False
    then show ?thesis
      by (simp only: e results_of_Cons recent_step if_False)
  qed
  finally show ?case .
qed

lemma take10_cons:
  "length rs \<le> 10 \<Longrightarrow> take 10 (x # rs) = x # (if length rs = 10 then butlast rs else rs)"
  by (simp add: butlast_conv_take)

lemma filter_absent:
  "c \<notin> set (map ac_call_id xs) \<Longrightarrow> filter (\<lambda>a. ac_call_id a \<noteq> c) xs = xs"
  by (induction xs) auto

text \<open>
  What holds of the removal: a \<open>call_ended\<close> message removes every entry of its call, and
  the call stays absent whatever follows (the same \<open>call_ended\<close> again, for one), unless a
  \<open>call_started\<close> adds it again.
\<close>

lemma call_ended_removes:
  "m_type m = JStr ''call_ended'' \<Longrightarrow>
     m_call_id m \<notin> set (active_ids (handleWebSocketMessage b m s))"
  by (auto simp: active_ids_def active_step)

lemma absent_stays_absent:
  "c \<notin> set (active_ids s) \<Longrightarrow>
   \<not> (m_type m = JStr ''call_started'' \<and> m_call_id m = c) \<Longrightarrow>
     c \<notin> set (active_ids (handleWebSocketMessage b m s))"
  by (auto simp: active_ids_def active_step active_entry_def)

lemma absent_stays_absent_all:
  "c \<notin> set (active_ids s) \<Longrightarrow>
   \<forall>(b, m) \<in> set evs. \<not> (m_type m = JStr ''call_started'' \<and> m_call_id m = c) \<Longrightarrow>
     c \<notin> set (active_ids (handle_all evs s))"
proof (induction evs arbitrary: s)
  case Nil
  then show ?case by simp
next
  case (Cons e evs)
  obtain b m where e: "e = (b, m)" by (cases e)
  with Cons.prems have "c \<notin> set (active_ids (handleWebSocketMessage b m s))"
    by (simp add: absent_stays_absent)
  with Cons.prems Cons.IH show ?case by (simp add: e)
qed

lemma call_ended_stays_removed:
  "m_type m = JStr ''call_ended'' \<Longrightarrow>
   \<forall>(b', m') \<in> set evs. \<not> (m_type m' = JStr ''call_started'' \<and> m_call_id m' = m_call_id m) \<Longrightarrow>
     m_call_id m \<notin> set (active_ids (handle_all evs (handleWebSocketMessage b m s)))"
  by (rule absent_stays_absent_all) (simp_all add: call_ended_removes)

text \<open>A \<open>call_error\<close> message is not handled: it leaves the whole state as it is.\<close>

lemma call_error_ignored:
  "m_type m = JStr ''call_error'' \<Longrightarrow> handleWebSocketMessage b m s = s"
  by (simp add: handleWebSocketMessage_def)

text \<open>
  C1. The claim: once a terminal event (\<open>call_ended\<close> or \<open>call_error\<close>) of a call has been
  processed, \<open>activeCalls\<close> holds no entry of that call. The handler has no branch for
  \<open>call_error\<close>: the call that was started and then failed is still listed.
\<close>

theorem call_error_keeps_active_call:
  "active_ids
     (handle_all [(browser0, msg ''call_started'' (JStr ''c1'')),
                  (browser0, msg ''call_error'' (JStr ''c1''))] app_init) = [JStr ''c1'']"
  by (simp add: active_ids_def handleWebSocketMessage_def msg_def app_init_def
        active_entry_def)

text \<open>
  C2, as stated: a \<open>call_started\<close> for a call already in \<open>activeCalls\<close> leaves the array
  unchanged. It does not: the entry is appended a second time.
\<close>

theorem duplicate_call_started_counterexample:
  "JStr ''c1'' \<in> set (active_ids
      (handleWebSocketMessage browser0 (msg ''call_started'' (JStr ''c1'')) app_init)) \<and>
   activeCalls (handleWebSocketMessage browser0 (msg ''call_started'' (JStr ''c1''))
      (handleWebSocketMessage browser0 (msg ''call_started'' (JStr ''c1'')) app_init)) \<noteq>
   activeCalls (handleWebSocketMessage browser0 (msg ''call_started'' (JStr ''c1'')) app_init)"
  by (simp add: active_ids_def handleWebSocketMessage_def msg_def app_init_def
        active_entry_def)

text \<open>
  C2, amended: every \<open>call_started\<close> appends one entry to \<open>activeCalls\<close>, whether or not
  the call is already listed; a \<open>call_ended\<close> or \<open>call_error\<close> for a call that is not
  listed leaves \<open>activeCalls\<close> unchanged; and processing the same \<open>call_ended\<close> a second
  time changes nothing.
\<close>

theorem active_calls_add_appends_remove_idempotent:
  "(m_type m = JStr ''call_started'' \<longrightarrow>
      activeCalls (handleWebSocketMessage b m s) = activeCalls s @ [active_entry m]) \<and>
   ((m_type m = JStr ''call_ended'' \<or> m_type m = JStr ''call_error'') \<and>
    m_call_id m \<notin> set (active_ids s) \<longrightarrow>
      activeCalls (handleWebSocketMessage b m s) = activeCalls s) \<and>
   (m_type m = JStr ''call_ended'' \<longrightarrow>
      activeCalls (handleWebSocketMessage b' m (handleWebSocketMessage b m s)) =
      activeCalls (handleWebSocketMessage b m s))"
proof (intro conjI impI)
  assume "m_type m = JStr ''call_started''"
  then show "activeCalls (handleWebSocketMessage b m s) = activeCalls s @ [active_entry m]"
    by (simp add: active_step)
next
  assume a: "(m_type m = JStr ''call_ended'' \<or> m_type m = JStr ''call_error'') \<and>
    m_call_id m \<notin> set (active_ids s)"
  then have "filter (\<lambda>c. ac_call_id c \<noteq> m_call_id m) (activeCalls s) = activeCalls s"
    by (simp add: filter_absent active_ids_def)
  with a show "activeCalls (handleWebSocketMessage b m s) = activeCalls s"
    by (auto simp: active_step)
next
  assume "m_type m = JStr ''call_ended''"
  then show "activeCalls (handleWebSocketMessage b' m (handleWebSocketMessage b m s)) =
      activeCalls (handleWebSocketMessage b m s)"
    by (simp add: active_step)
qed

theorem active_calls_add_appends_remove_idempotent_witness:
  "m_type (msg ''call_started'' (JStr ''c1'')) = JStr ''call_started'' \<and>
   active_ids (handleWebSocketMessage browser0 (msg ''call_started'' (JStr ''c1''))
      (handleWebSocketMessage browser0 (msg ''call_started'' (JStr ''c1'')) app_init)) =
     [JStr ''c1'', JStr ''c1''] \<and>
   m_type (msg ''call_ended'' (JStr ''c2'')) = JStr ''call_ended'' \<and>
   JStr ''c2'' \<notin> set (active_ids
      (handleWebSocketMessage browser0 (msg ''call_started'' (JStr ''c1'')) app_init)) \<and>
   activeCalls (handleWebSocketMessage browser0 (msg ''call_ended'' (JStr ''c2''))
      (handleWebSocketMessage browser0 (msg ''call_started'' (JStr ''c1'')) app_init)) =
   activeCalls (handleWebSocketMessage browser0 (msg ''call_started'' (JStr ''c1'')) app_init)"
  using active_calls_add_appends_remove_idempotent
      [of "msg ''call_started'' (JStr ''c1'')" browser0
          "handleWebSocketMessage browser0 (msg ''call_started'' (JStr ''c1'')) app_init"
          browser0]
    active_calls_add_appends_remove_idempotent
      [of "msg ''call_ended'' (JStr ''c2'')" browser0
          "handleWebSocketMessage browser0 (msg ''call_started'' (JStr ''c1'')) app_init"
          browser0]
  by (simp add: active_ids_def msg_def active_entry_def active_step app_init_def)

text \<open>
  C8. \<open>recentResults\<close> never holds more than 10 entries and is ordered newest first: after
  any sequence of deliveries it is the last ten results in reverse order of arrival, and
  a \<open>call_result\<close> puts its entry in front, dropping the oldest entry when ten are held.
\<close>

theorem recentResults_bounded_newest_first:
  "length (recentResults (handle_all evs app_init)) \<le> 10 \<and>
   recentResults (handle_all evs app_init) = take 10 (rev (results_of evs)) \<and>
   (m_type m = JStr ''call_result'' \<longrightarrow>
      recentResults (handleWebSocketMessage b m (handle_all evs app_init)) =
        result_entry b m #
          (if length (recentResults (handle_all evs app_init)) = 10
           then butlast (recentResults (handle_all evs app_init))
           else recentResults (handle_all evs app_init)))"
proof -
  have all: "recentResults (handle_all evs app_init) = take 10 (rev (results_of evs))"
    using recent_all [of app_init evs] by (simp add: app_init_def)
  have len: "length (recentResults (handle_all evs app_init)) \<le> 10"
    by (simp add: all)
  show ?thesis
    using all len take10_cons [OF len] by (simp only: recent_step) simp
qed

theorem recentResults_bounded_newest_first_witness:
  "m_type (result_msg 12) = JStr ''call_result'' \<and>
   map rr_call_id
     (recentResults (handleWebSocketMessage browser0 (result_msg 12)
        (handle_all (map (\<lambda>n. (browser0, result_msg n)) [1, 2, 3, 4, 5, 6, 7, 8, 9, 10, 11])
           app_init))) =
     map JNum [12, 11, 10, 9, 8, 7, 6, 5, 4, 3]"
  using recentResults_bounded_newest_first
    [of "map (\<lambda>n. (browser0, result_msg n)) [1, 2, 3, 4, 5, 6, 7, 8, 9, 10, 11]"
        "result_msg 12" browser0]
  by (simp add: result_msg_def msg_def results_of_def result_entry_def)

section \<open>Properties of the scenario runtime\<close>

subsection \<open>The primitives, field by field\<close>

lemma posts_append: "posts (xs @ ys) = posts xs @ posts ys"
  by (induction xs rule: posts.induct) auto

lemma emit_simps:
  "trace (emit a s) = trace s @ [a]"
  "pending (emit a s) = pending s"
  "next_req (emit a s) = next_req s"
  "rt_timers (emit a s) = rt_timers s"
  "rt_next_timer (emit a s) = rt_next_timer s"
  "rt_clock (emit a s) = rt_clock s"
  "terminated (emit a s) = terminated s"
  "listening (emit a s) = listening s"
  "connecting (emit a s) = connecting s"
  "geminiClient (emit a s) = geminiClient s"
  "callData (emit a s) = callData s"
  by (simp_all add: emit_def)

lemma sendWebhook_simps:
  "trace (sendWebhook d k s) = trace s @ [HttpPost (next_req s) d]"
  "pending (sendWebhook d k s) = pending s @ [(next_req s, d, k)]"
  "next_req (sendWebhook d k s) = Suc (next_req s)"
  "rt_timers (sendWebhook d k s) = rt_timers s"
  "rt_next_timer (sendWebhook d k s) = rt_next_timer s"
  "rt_clock (sendWebhook d k s) = rt_clock s"
  "terminated (sendWebhook d k s) = terminated s"
  "listening (sendWebhook d k s) = listening s"
  "connecting (sendWebhook d k s) = connecting s"
  "geminiClient (sendWebhook d k s) = geminiClient s"
  "callData (sendWebhook d k s) = callData s"
  by (simp_all add: sendWebhook_def emit_def)

lemma webhook_settled_simps:
  "posts (trace (webhook_settled out d s)) = posts (trace s)"
  "pending (webhook_settled out d s) = pending s"
  "next_req (webhook_settled out d s) = next_req s"
  "rt_timers (webhook_settled out d s) = rt_timers s"
  "rt_next_timer (webhook_settled out d s) = rt_next_timer s"
  "rt_clock (webhook_settled out d s) = rt_clock s"
  "terminated (webhook_settled out d s) = terminated s"
  "listening (webhook_settled out d s) = listening s"
  "connecting (webhook_settled out d s) = connecting s"
  "geminiClient (webhook_settled out d s) = geminiClient s"
  "callData (webhook_settled out d s) = callData s"
  by (simp_all add: webhook_settled_def emit_def posts_append split: http_outcome.splits)

lemma posts_run_cont: "posts (trace (run_cont k s)) = posts (trace s)"
  by (cases k) (simp_all add: emit_def setTimeout_def posts_append)

lemma posts_hangup_cb: "posts (trace (hangup_cb s)) = posts (trace s)"
  by (simp add: hangup_cb_def emit_def posts_append)

lemma posts_rt_fire_due: "posts (trace (rt_fire_due ts s)) = posts (trace s)"
  by (induction ts s rule: rt_fire_due.induct) (simp_all add: posts_hangup_cb)

lemma posts_catch_block:
  "posts (trace (catch_block e s)) = posts (trace s) @ [call_error_payload (callData s) e]"
  by (simp add: catch_block_def sendWebhook_simps emit_simps posts_append)

text \<open>The bodies an event adds to those posted.\<close>

lemma posts_rt_step:
  "posts (trace (rt_step e s)) = posts (trace s) @
     (if terminated s then []
      else case e of
        ToolCall fc \<Rightarrow>
          if listening s \<and> fc_name fc = JStr ''save_call_result'' \<and> fc_has_parameters fc
          then [call_result_payload (callData s) fc] else []
      | Disconnected \<Rightarrow> if listening s then [call_ended_payload (callData s)] else []
      | Failed \<Rightarrow> if listening s then [call_ended_payload (callData s)] else []
      | GeminiRejected m \<Rightarrow> if connecting s then [call_error_payload (callData s) m] else []
      | _ \<Rightarrow> [])"
proof (cases e)
  case (HttpDone i out)
  then show ?thesis
    by (simp add: rt_step_def posts_run_cont webhook_settled_simps split: option.splits)
next
  case GeminiReady
  then show ?thesis by (simp add: rt_step_def emit_simps posts_append)
next
  case (GeminiRejected m)
  then show ?thesis by (simp add: rt_step_def posts_catch_block)
next
  case GeminiSocketClosed
  then show ?thesis by (simp add: rt_step_def emit_simps posts_append)
next
  case (ToolCall fc)
  then show ?thesis
    by (simp add: rt_step_def Let_def sendWebhook_simps emit_simps posts_append)
next
  case Disconnected
  then show ?thesis by (simp add: rt_step_def sendWebhook_simps emit_simps posts_append)
next
  case Failed
  then show ?thesis by (simp add: rt_step_def sendWebhook_simps emit_simps posts_append)
next
  case (Elapse d)
  then show ?thesis by (simp add: rt_step_def Let_def posts_rt_fire_due)
qed

lemma type_of_payloads:
  "field (call_started_payload cd v n) ''type'' = JStr ''call_started''"
  "field (call_result_payload cd fc) ''type'' = JStr ''call_result''"
  "field (call_ended_payload cd) ''type'' = JStr ''call_ended''"
  "field (call_error_payload cd m) ''type'' = JStr ''call_error''"
  by (simp_all add: field_def call_started_payload_def call_result_payload_def
        call_ended_payload_def call_error_payload_def)

lemma posts_of_type_step:
  "posts_of_type t (rt_step e s) = posts_of_type t s @
     filter (\<lambda>d. field d ''type'' = JStr t)
       (if terminated s then []
        else case e of
          ToolCall fc \<Rightarrow>
            if listening s \<and> fc_name fc = JStr ''save_call_result'' \<and> fc_has_parameters fc
            then [call_result_payload (callData s) fc] else []
        | Disconnected \<Rightarrow> if listening s then [call_ended_payload (callData s)] else []
        | Failed \<Rightarrow> if listening s then [call_ended_payload (callData s)] else []
        | GeminiRejected m \<Rightarrow> if connecting s then [call_error_payload (callData s) m] else []
        | _ \<Rightarrow> [])"
  unfolding posts_of_type_def by (simp only: posts_rt_step filter_append)


lemma find_req_fresh:
  "\<forall>r \<in> set rs. fst r \<noteq> i \<Longrightarrow> find_req i (rs @ [(i, d, k)]) = Some (d, k)"
  by (induction rs) auto

lemma find_req_new:
  "session_inv s \<Longrightarrow> find_req (next_req s) (pending s @ [(next_req s, d, k)]) = Some (d, k)"
  by (rule find_req_fresh) (auto simp: session_inv_def)

lemma setTimeout_simps:
  "trace (setTimeout n s) = trace s @ [SetTimeout (rt_next_timer s) n]"
  "pending (setTimeout n s) = pending s"
  "next_req (setTimeout n s) = next_req s"
  "rt_timers (setTimeout n s) = rt_timers s @ [(rt_next_timer s, rt_clock s + n)]"
  "rt_next_timer (setTimeout n s) = Suc (rt_next_timer s)"
  "rt_clock (setTimeout n s) = rt_clock s"
  "terminated (setTimeout n s) = terminated s"
  "listening (setTimeout n s) = listening s"
  "connecting (setTimeout n s) = connecting s"
  "geminiClient (setTimeout n s) = geminiClient s"
  "callData (setTimeout n s) = callData s"
  by (simp_all add: setTimeout_def emit_def)

lemma run_cont_simps:
  "pending (run_cont k s) = pending s"
  "next_req (run_cont k s) = next_req s"
  "listening (run_cont k s) = listening s"
  "geminiClient (run_cont k s) = geminiClient s"
  "callData (run_cont k s) = callData s"
  "rt_clock (run_cont k s) = rt_clock s"
  by (cases k; simp add: emit_simps setTimeout_simps)+

lemma catch_block_simps:
  "pending (catch_block e s) = pending s @ [(next_req s, call_error_payload (callData s) e, AfterError)]"
  "next_req (catch_block e s) = Suc (next_req s)"
  "listening (catch_block e s) = listening s"
  "geminiClient (catch_block e s) = geminiClient s"
  "callData (catch_block e s) = callData s"
  "rt_clock (catch_block e s) = rt_clock s"
  "rt_timers (catch_block e s) = rt_timers s"
  "rt_next_timer (catch_block e s) = rt_next_timer s"
  "terminated (catch_block e s) = terminated s"
  "connecting (catch_block e s) = connecting s"
  "trace (catch_block e s) = trace s @ [Log (LScenarioError e), HttpPost (next_req s) (call_error_payload (callData s) e)]"
  by (simp_all add: catch_block_def sendWebhook_simps emit_simps)

lemma hangup_cb_simps:
  "trace (hangup_cb s) = trace s @ [Log LHangingUp, Hangup]"
  "pending (hangup_cb s) = pending s"
  "next_req (hangup_cb s) = next_req s"
  "rt_timers (hangup_cb s) = rt_timers s"
  "rt_next_timer (hangup_cb s) = rt_next_timer s"
  "rt_clock (hangup_cb s) = rt_clock s"
  "terminated (hangup_cb s) = terminated s"
  "listening (hangup_cb s) = listening s"
  "connecting (hangup_cb s) = connecting s"
  "geminiClient (hangup_cb s) = geminiClient s"
  "callData (hangup_cb s) = callData s"
  by (simp_all add: hangup_cb_def emit_simps)

lemma rt_fire_due_simps:
  "pending (rt_fire_due ts s) = pending s"
  "next_req (rt_fire_due ts s) = next_req s"
  "listening (rt_fire_due ts s) = listening s"
  "geminiClient (rt_fire_due ts s) = geminiClient s"
  "callData (rt_fire_due ts s) = callData s"
  "rt_clock (rt_fire_due ts s) = rt_clock s"
  "terminated (rt_fire_due ts s) = terminated s"
  "connecting (rt_fire_due ts s) = connecting s"
  "rt_next_timer (rt_fire_due ts s) = rt_next_timer s"
  by (induction ts s rule: rt_fire_due.induct; simp add: hangup_cb_simps)+

lemma session_inv_start: "session_inv (on_call_alerting c v n)"
  by (cases c)
     (simp_all add: session_inv_def on_call_alerting_def Let_def catch_block_simps
        sendWebhook_simps emit_simps runtime_init_def)

lemma session_inv_step: "session_inv s \<Longrightarrow> session_inv (rt_step e s)"
proof (cases e)
  case (HttpDone i out)
  assume "session_inv s"
  then show ?thesis
    using HttpDone
    by (auto simp: session_inv_def rt_step_def run_cont_simps webhook_settled_simps
          split: option.splits)
next
  case (Elapse d)
  assume "session_inv s"
  then show ?thesis
    using Elapse by (auto simp: session_inv_def rt_step_def Let_def rt_fire_due_simps)
qed (auto simp: session_inv_def rt_step_def Let_def catch_block_simps sendWebhook_simps
       emit_simps less_Suc_eq)

lemma session_inv_run: "session_inv s \<Longrightarrow> session_inv (rt_run es s)"
  by (induction es arbitrary: s) (simp_all add: session_inv_step)

lemma session_inv_session: "session_inv (session c v n es)"
  by (simp add: session_def session_inv_run session_inv_start)

subsection \<open>The sample states, evaluated\<close>

lemma start0_eval:
  "start0 = \<lparr>callData =
    \<lparr>cd_call_id = JStr ''c1'', cd_lead_id = JNum 7,
       cd_lead_name = JStr ''Dana'', cd_lead_type = JStr ''drop-off'',
       cd_context = JStr ''kyc''\<rparr>,
    geminiClient = False, connecting = False, listening = False,
    pending =
      [(0, [(''type'', JStr ''call_started''), (''call_id'', JStr ''c1''),
            (''lead_id'', JNum 7), (''lead_name'', JStr ''Dana''),
            (''lead_type'', JStr ''drop-off''),
            (''voximplant_call_id'', JStr ''vox-1''),
            (''timestamp'', JStr ''2025-01-01T00:00:00.000Z'')],
        AfterStarted)],
    next_req = 1, rt_timers = [], rt_next_timer = 0, rt_clock = 0,
    terminated = False,
    trace =
      [Answer, Log LCallAnswered,
       Log (LCalling (JStr ''Dana'') (JStr ''+972500000000'')
             (JStr ''kyc'')),
       HttpPost 0
        [(''type'', JStr ''call_started''), (''call_id'', JStr ''c1''),
         (''lead_id'', JNum 7), (''lead_name'', JStr ''Dana''),
         (''lead_type'', JStr ''drop-off''),
         (''voximplant_call_id'', JStr ''vox-1''),
         (''timestamp'', JStr ''2025-01-01T00:00:00.000Z'')]]\<rparr>"
  by (simp add: start0_def on_call_alerting_def lead0_def runtime_init_def emit_def
        sendWebhook_def call_started_payload_def js_or_def)

lemma bridged0_eval:
  "bridged0 = \<lparr>callData =
    \<lparr>cd_call_id = JStr ''c1'', cd_lead_id = JNum 7,
       cd_lead_name = JStr ''Dana'', cd_lead_type = JStr ''drop-off'',
       cd_context = JStr ''kyc''\<rparr>,
    geminiClient = True, connecting = False, listening = True, pending = [],
    next_req = 1, rt_timers = [], rt_next_timer = 0, rt_clock = 0,
    terminated = False,
    trace =
      [Answer, Log LCallAnswered,
       Log (LCalling (JStr ''Dana'') (JStr ''+972500000000'')
             (JStr ''kyc'')),
       HttpPost 0
        [(''type'', JStr ''call_started''), (''call_id'', JStr ''c1''),
         (''lead_id'', JNum 7), (''lead_name'', JStr ''Dana''),
         (''lead_type'', JStr ''drop-off''),
         (''voximplant_call_id'', JStr ''vox-1''),
         (''timestamp'', JStr ''2025-01-01T00:00:00.000Z'')],
       Log (LWebhookSent (JStr ''call_started'')), Log LInitGemini,
       CreateLiveAPIClient, Log LGeminiConnected, SendMediaBetween,
       Log LAudioBridge]\<rparr>"
  by (simp add: bridged0_def start0_eval rt_step_def webhook_settled_def emit_def field_def)


subsection \<open>Result capture\<close>

text \<open>
  C3, as stated: a second invocation of the outcome-capture function for the same call
  causes no second \<open>call_result\<close>. It does: two invocations on the bridged sample call
  post two \<open>call_result\<close> bodies with the same \<open>call_id\<close>.
\<close>

theorem second_call_result_counterexample:
  "map (\<lambda>d. field d ''call_id'')
     (posts_of_type ''call_result'' (rt_run [ToolCall fc0, ToolCall fc0] bridged0)) =
   [JStr ''c1'', JStr ''c1'']"
  by (simp add: bridged0_eval rt_step_def fc0_def emit_def sendWebhook_def
        call_result_payload_def posts_of_type_def field_def)


text \<open>
  C3, amended: the runtime posts one \<open>call_result\<close> for each invocation of
  \<open>save_call_result\<close> that its listener handles (listeners registered, session not
  terminated), whatever was posted before, so a second invocation posts a second
  \<open>call_result\<close>; no other event posts a \<open>call_result\<close>.
\<close>

theorem call_result_per_invocation:
  "posts_of_type ''call_result'' (rt_step (ToolCall fc) s) =
     (if listening s \<and> \<not> terminated s \<and> fc_name fc = JStr ''save_call_result'' \<and> fc_has_parameters fc
      then posts_of_type ''call_result'' s @ [call_result_payload (callData s) fc]
      else posts_of_type ''call_result'' s) \<and>
   (\<not> is_tool_call e \<longrightarrow>
      posts_of_type ''call_result'' (rt_step e s) = posts_of_type ''call_result'' s)"
proof (intro conjI impI)
  show "posts_of_type ''call_result'' (rt_step (ToolCall fc) s) =
     (if listening s \<and> \<not> terminated s \<and> fc_name fc = JStr ''save_call_result'' \<and> fc_has_parameters fc
      then posts_of_type ''call_result'' s @ [call_result_payload (callData s) fc]
      else posts_of_type ''call_result'' s)"
    by (simp add: posts_of_type_step type_of_payloads)
next
  assume "\<not> is_tool_call e"
  then show "posts_of_type ''call_result'' (rt_step e s) = posts_of_type ''call_result'' s"
    by (cases e) (simp_all add: posts_of_type_step type_of_payloads)
qed


theorem call_result_per_invocation_witness:
  "\<not> is_tool_call Failed \<and>
   posts_of_type ''call_result'' (rt_step Failed (rt_step (ToolCall fc0) bridged0)) =
     [call_result_payload (callData bridged0) fc0] \<and>
   posts_of_type ''call_result'' (rt_step (ToolCall fc0) (rt_step (ToolCall fc0) bridged0)) =
     [call_result_payload (callData bridged0) fc0, call_result_payload (callData bridged0) fc0]"
  using call_result_per_invocation [of fc0 "rt_step (ToolCall fc0) bridged0" Failed]
    call_result_per_invocation [of fc0 bridged0 Failed]
  by (simp add: bridged0_eval rt_step_def fc0_def emit_def sendWebhook_def
        call_result_payload_def posts_of_type_def field_def)

subsection \<open>Malformed context\<close>

text \<open>
  C10. When the context payload does not parse, the handler posts a \<open>call_error\<close> built
  from the still empty \<open>callData\<close>: its \<open>call_id\<close> is undefined, and the serialized body
  has the keys \<open>type\<close> and \<open>error\<close> only.
\<close>

theorem malformed_context_call_error_without_call_id:
  "callData (on_call_alerting (Malformed e) v n) = empty_call_data \<and>
   posts (trace (on_call_alerting (Malformed e) v n)) = [call_error_payload empty_call_data e] \<and>
   field (call_error_payload empty_call_data e) ''call_id'' = Undefined \<and>
   json_stringify (call_error_payload empty_call_data e) =
     [(''type'', JStr ''call_error''), (''error'', JStr e)]"
  by (simp add: on_call_alerting_def Let_def catch_block_simps emit_simps posts_append
        runtime_init_def call_error_payload_def empty_call_data_def field_def
        json_stringify_def)

subsection \<open>Effects, and independence of the logs\<close>

lemma effects_emit: "effects (emit a s) = effects s @ (if is_log a then [] else [a])"
  by (simp add: effects_def emit_def)

lemma effects_sendWebhook: "effects (sendWebhook d k s) = effects s @ [HttpPost (next_req s) d]"
  by (simp add: effects_def sendWebhook_simps)

lemma effects_webhook_settled: "effects (webhook_settled out d s) = effects s"
  by (simp add: effects_def webhook_settled_def emit_def split: http_outcome.splits)

lemma effects_run_cont: "effects (run_cont k s) = effects s @ cont_effects k s"
  by (cases k) (simp_all add: effects_def emit_def setTimeout_def hangup_delay_def)

lemma effects_catch_block:
  "effects (catch_block m s) = effects s @ [HttpPost (next_req s) (call_error_payload (callData s) m)]"
  by (simp add: effects_def catch_block_simps)

lemma effects_hangup_cb: "effects (hangup_cb s) = effects s @ [Hangup]"
  by (simp add: effects_def hangup_cb_simps)

lemma run_cont_more:
  "terminated (run_cont k s) = (terminated s \<or> k = AfterEnded \<or> k = AfterError)"
  "connecting (run_cont k s) = (connecting s \<or> k = AfterStarted)"
  "rt_next_timer (run_cont k s) =
     (case k of AfterResult fc \<Rightarrow> Suc (rt_next_timer s) | _ \<Rightarrow> rt_next_timer s)"
  "rt_timers (run_cont k s) =
     (case k of AfterResult fc \<Rightarrow> rt_timers s @ [(rt_next_timer s, rt_clock s + 4000)]
      | _ \<Rightarrow> rt_timers s)"
  by (cases k; simp add: emit_simps setTimeout_simps hangup_delay_def)+

lemma effects_rt_fire_due:
  "effects (rt_fire_due ts s) =
     effects s @ replicate (length (filter (\<lambda>t. snd t \<le> rt_clock s) ts)) Hangup"
proof (induction ts s rule: rt_fire_due.induct)
  case (1 s)
  then show ?case by simp
next
  case (2 i due ts s)
  then show ?case
    by (simp add: effects_hangup_cb hangup_cb_simps effects_def replicate_app_Cons_same)
qed

lemma timers_rt_fire_due:
  "rt_timers (rt_fire_due ts s) =
     filter (\<lambda>t. fst t \<notin> fst ` set (filter (\<lambda>t. snd t \<le> rt_clock s) ts)) (rt_timers s)"
proof (induction ts s rule: rt_fire_due.induct)
  case (1 s)
  then show ?case by simp
next
  case (2 i due ts s)
  then show ?case
    by (auto simp: hangup_cb_simps intro!: filter_cong)
qed

lemma strip_logs_eq_iff:
  "strip_logs s = strip_logs s' \<longleftrightarrow>
     callData s = callData s' \<and> geminiClient s = geminiClient s' \<and>
     connecting s = connecting s' \<and> listening s = listening s' \<and>
     pending s = pending s' \<and> next_req s = next_req s' \<and>
     rt_timers s = rt_timers s' \<and> rt_next_timer s = rt_next_timer s' \<and>
     rt_clock s = rt_clock s' \<and> terminated s = terminated s' \<and>
     effects s = effects s'"
  by (cases s; cases s') (simp add: strip_logs_def effects_def)

lemma effects_update:
  "effects (s\<lparr>connecting := b\<rparr>) = effects s"
  "effects (s\<lparr>geminiClient := b\<rparr>) = effects s"
  "effects (s\<lparr>listening := b\<rparr>) = effects s"
  "effects (s\<lparr>pending := p\<rparr>) = effects s"
  "effects (s\<lparr>rt_clock := c\<rparr>) = effects s"
  by (simp_all add: effects_def)


lemma cong_http:
  assumes "strip_logs s = strip_logs s'"
  shows "strip_logs (rt_step (HttpDone i out) s) = strip_logs (rt_step (HttpDone i out') s')"
proof -
  have fs: "callData s = callData s'" "geminiClient s = geminiClient s'"
    "connecting s = connecting s'" "listening s = listening s'"
    "pending s = pending s'" "next_req s = next_req s'"
    "rt_timers s = rt_timers s'" "rt_next_timer s = rt_next_timer s'"
    "rt_clock s = rt_clock s'" "terminated s = terminated s'"
    "effects s = effects s'"
    using assms(1) by (simp_all add: strip_logs_eq_iff)
  show ?thesis
  proof (cases "terminated s'")
    case True
    then show ?thesis using fs assms by (simp add: rt_step_def)
  next
    case False
    show ?thesis
    proof (cases "find_req i (pending s')")
      case None
      then show ?thesis using fs assms False by (simp add: rt_step_def)
    next
      case (Some dk)
      obtain d k where dk: "dk = (d, k)" by (cases dk)
      let ?p = "filter (\<lambda>r. fst r \<noteq> i) (pending s')"
      have l: "rt_step (HttpDone i out) s = run_cont k (webhook_settled out d (s\<lparr>pending := ?p\<rparr>))"
        using fs False Some dk by (simp add: rt_step_def)
      have r: "rt_step (HttpDone i out') s' = run_cont k (webhook_settled out' d (s'\<lparr>pending := ?p\<rparr>))"
        using fs False Some dk by (simp add: rt_step_def)
      have e1: "effects (s\<lparr>pending := ?p\<rparr>) = effects s'"
        using fs by (simp add: effects_def)
      have e2: "effects (s'\<lparr>pending := ?p\<rparr>) = effects s'"
        by (simp add: effects_def)
      show ?thesis
        unfolding l r strip_logs_eq_iff
        by (cases k)
           (simp_all add: run_cont_simps run_cont_more webhook_settled_simps
              effects_run_cont effects_webhook_settled e1 e2 fs del: run_cont.simps)
    qed
  qed
qed

lemma cong_ready:
  assumes "strip_logs s = strip_logs s'"
  shows "strip_logs (rt_step GeminiReady s) = strip_logs (rt_step GeminiReady s')"
proof -
  have fs: "callData s = callData s'" "geminiClient s = geminiClient s'"
    "connecting s = connecting s'" "listening s = listening s'"
    "pending s = pending s'" "next_req s = next_req s'"
    "rt_timers s = rt_timers s'" "rt_next_timer s = rt_next_timer s'"
    "rt_clock s = rt_clock s'" "terminated s = terminated s'"
    "effects s = effects s'"
    using assms(1) by (simp_all add: strip_logs_eq_iff)
  show ?thesis
    unfolding strip_logs_eq_iff
    by (simp add: rt_step_def emit_simps effects_emit effects_update fs)
qed

lemma cong_rej:
  assumes "strip_logs s = strip_logs s'"
  shows "strip_logs (rt_step (GeminiRejected m) s) = strip_logs (rt_step (GeminiRejected m) s')"
proof -
  have fs: "callData s = callData s'" "geminiClient s = geminiClient s'"
    "connecting s = connecting s'" "listening s = listening s'"
    "pending s = pending s'" "next_req s = next_req s'"
    "rt_timers s = rt_timers s'" "rt_next_timer s = rt_next_timer s'"
    "rt_clock s = rt_clock s'" "terminated s = terminated s'"
    "effects s = effects s'"
    using assms(1) by (simp_all add: strip_logs_eq_iff)
  show ?thesis
    unfolding strip_logs_eq_iff
    by (simp add: rt_step_def catch_block_simps effects_catch_block effects_update fs)
qed

lemma cong_closed:
  assumes "strip_logs s = strip_logs s'"
  shows "strip_logs (rt_step GeminiSocketClosed s) = strip_logs (rt_step GeminiSocketClosed s')"
proof -
  have fs: "callData s = callData s'" "geminiClient s = geminiClient s'"
    "connecting s = connecting s'" "listening s = listening s'"
    "pending s = pending s'" "next_req s = next_req s'"
    "rt_timers s = rt_timers s'" "rt_next_timer s = rt_next_timer s'"
    "rt_clock s = rt_clock s'" "terminated s = terminated s'"
    "effects s = effects s'"
    using assms(1) by (simp_all add: strip_logs_eq_iff)
  show ?thesis
    unfolding strip_logs_eq_iff
    by (simp add: rt_step_def emit_simps effects_emit effects_update fs)
qed

lemma cong_tool:
  assumes "strip_logs s = strip_logs s'"
  shows "strip_logs (rt_step (ToolCall fc) s) = strip_logs (rt_step (ToolCall fc) s')"
proof -
  have fs: "callData s = callData s'" "geminiClient s = geminiClient s'"
    "connecting s = connecting s'" "listening s = listening s'"
    "pending s = pending s'" "next_req s = next_req s'"
    "rt_timers s = rt_timers s'" "rt_next_timer s = rt_next_timer s'"
    "rt_clock s = rt_clock s'" "terminated s = terminated s'"
    "effects s = effects s'"
    using assms(1) by (simp_all add: strip_logs_eq_iff)
  show ?thesis
    unfolding strip_logs_eq_iff
    by (simp add: rt_step_def Let_def sendWebhook_simps emit_simps effects_sendWebhook effects_emit fs)
qed

lemma cong_disc:
  assumes "strip_logs s = strip_logs s'"
  shows "strip_logs (rt_step Disconnected s) = strip_logs (rt_step Disconnected s')"
proof -
  have fs: "callData s = callData s'" "geminiClient s = geminiClient s'"
    "connecting s = connecting s'" "listening s = listening s'"
    "pending s = pending s'" "next_req s = next_req s'"
    "rt_timers s = rt_timers s'" "rt_next_timer s = rt_next_timer s'"
    "rt_clock s = rt_clock s'" "terminated s = terminated s'"
    "effects s = effects s'"
    using assms(1) by (simp_all add: strip_logs_eq_iff)
  show ?thesis
    unfolding strip_logs_eq_iff
    by (simp add: rt_step_def sendWebhook_simps emit_simps effects_sendWebhook effects_emit fs)
qed

lemma cong_failed:
  assumes "strip_logs s = strip_logs s'"
  shows "strip_logs (rt_step Failed s) = strip_logs (rt_step Failed s')"
proof -
  have fs: "callData s = callData s'" "geminiClient s = geminiClient s'"
    "connecting s = connecting s'" "listening s = listening s'"
    "pending s = pending s'" "next_req s = next_req s'"
    "rt_timers s = rt_timers s'" "rt_next_timer s = rt_next_timer s'"
    "rt_clock s = rt_clock s'" "terminated s = terminated s'"
    "effects s = effects s'"
    using assms(1) by (simp_all add: strip_logs_eq_iff)
  show ?thesis
    unfolding strip_logs_eq_iff
    by (simp add: rt_step_def sendWebhook_simps emit_simps effects_sendWebhook effects_emit fs)
qed

lemma cong_elapse:
  assumes "strip_logs s = strip_logs s'"
  shows "strip_logs (rt_step (Elapse d) s) = strip_logs (rt_step (Elapse d) s')"
proof -
  have fs: "callData s = callData s'" "geminiClient s = geminiClient s'"
    "connecting s = connecting s'" "listening s = listening s'"
    "pending s = pending s'" "next_req s = next_req s'"
    "rt_timers s = rt_timers s'" "rt_next_timer s = rt_next_timer s'"
    "rt_clock s = rt_clock s'" "terminated s = terminated s'"
    "effects s = effects s'"
    using assms(1) by (simp_all add: strip_logs_eq_iff)
  have ef: "effects (s\<lparr>rt_clock := rt_clock s' + d\<rparr>) = effects s'"
    "effects (s'\<lparr>rt_clock := rt_clock s' + d\<rparr>) = effects s'"
    using fs by (simp_all add: effects_def)
  show ?thesis
    unfolding strip_logs_eq_iff
    by (simp add: rt_step_def Let_def rt_fire_due_simps effects_rt_fire_due
          timers_rt_fire_due fs ef)
qed

lemma rt_step_cong:
  assumes "strip_logs s = strip_logs s'" and "forget_outcome e = forget_outcome e'"
  shows "strip_logs (rt_step e s) = strip_logs (rt_step e' s')"
proof (cases e)
  case (HttpDone i out)
  then obtain out' where e': "e' = HttpDone i out'"
    using assms(2) by (cases e') simp_all
  show ?thesis unfolding HttpDone e' by (rule cong_http [OF assms(1)])
next
  case GeminiReady
  then have e': "e' = GeminiReady" using assms(2) by (cases e') simp_all
  show ?thesis unfolding GeminiReady e' by (rule cong_ready [OF assms(1)])
next
  case (GeminiRejected m)
  then have e': "e' = GeminiRejected m" using assms(2) by (cases e') simp_all
  show ?thesis unfolding GeminiRejected e' by (rule cong_rej [OF assms(1)])
next
  case GeminiSocketClosed
  then have e': "e' = GeminiSocketClosed" using assms(2) by (cases e') simp_all
  show ?thesis unfolding GeminiSocketClosed e' by (rule cong_closed [OF assms(1)])
next
  case (ToolCall fc)
  then have e': "e' = ToolCall fc" using assms(2) by (cases e') simp_all
  show ?thesis unfolding ToolCall e' by (rule cong_tool [OF assms(1)])
next
  case Disconnected
  then have e': "e' = Disconnected" using assms(2) by (cases e') simp_all
  show ?thesis unfolding Disconnected e' by (rule cong_disc [OF assms(1)])
next
  case Failed
  then have e': "e' = Failed" using assms(2) by (cases e') simp_all
  show ?thesis unfolding Failed e' by (rule cong_failed [OF assms(1)])
next
  case (Elapse d)
  then have e': "e' = Elapse d" using assms(2) by (cases e') simp_all
  show ?thesis unfolding Elapse e' by (rule cong_elapse [OF assms(1)])
qed

lemma rt_run_cong:
  "strip_logs s = strip_logs s' \<Longrightarrow> map forget_outcome es = map forget_outcome es' \<Longrightarrow>
     strip_logs (rt_run es s) = strip_logs (rt_run es' s')"
proof (induction es arbitrary: s s' es')
  case Nil
  then show ?case by simp
next
  case (Cons e es)
  then obtain e' es'' where es': "es' = e' # es''"
    by (cases es') simp_all
  with Cons.prems have hd: "forget_outcome e = forget_outcome e'"
    and rest: "map forget_outcome es = map forget_outcome es''"
    by simp_all
  have "strip_logs (rt_step e s) = strip_logs (rt_step e' s')"
    using Cons.prems(1) hd by (rule rt_step_cong)
  then show ?case
    using Cons.IH [OF _ rest] by (simp add: es')
qed

lemma pending_other_event:
  assumes "(i, d, k) \<in> set (pending s)" and "\<not> settles i e"
  shows "(i, d, k) \<in> set (pending (rt_step e s))"
proof (cases e)
  case (HttpDone j out)
  with assms show ?thesis
    by (auto simp: rt_step_def run_cont_simps webhook_settled_simps split: option.splits)
next
  case (Elapse n)
  with assms show ?thesis by (simp add: rt_step_def Let_def rt_fire_due_simps)
qed (use assms in \<open>auto simp: rt_step_def Let_def catch_block_simps sendWebhook_simps emit_simps\<close>)

lemma find_req_filter: "find_req i (filter (\<lambda>r. fst r \<noteq> i) rs) = None"
  by (induction rs) auto

lemma settle_runs_cont:
  assumes "find_req i (pending s) = Some (d, k)" and "\<not> terminated s"
  shows "effects (rt_step (HttpDone i out) s) = effects s @ cont_effects k s"
    and "find_req i (pending (rt_step (HttpDone i out) s)) = None"
proof -
  let ?p = "filter (\<lambda>r. fst r \<noteq> i) (pending s)"
  have st: "rt_step (HttpDone i out) s = run_cont k (webhook_settled out d (s\<lparr>pending := ?p\<rparr>))"
    using assms by (simp add: rt_step_def)
  have ce: "cont_effects k (webhook_settled out d (s\<lparr>pending := ?p\<rparr>)) = cont_effects k s"
    by (cases k) (simp_all add: webhook_settled_simps)
  show "effects (rt_step (HttpDone i out) s) = effects s @ cont_effects k s"
    by (simp add: st effects_run_cont effects_webhook_settled effects_update ce
          del: run_cont.simps)
  show "find_req i (pending (rt_step (HttpDone i out) s)) = None"
    by (simp add: st run_cont_simps webhook_settled_simps find_req_filter
          del: run_cont.simps)
qed

lemma connecting0_eval:
  "connecting0 = \<lparr>callData =
    \<lparr>cd_call_id = JStr ''c1'', cd_lead_id = JNum 7,
       cd_lead_name = JStr ''Dana'', cd_lead_type = JStr ''drop-off'',
       cd_context = JStr ''kyc''\<rparr>,
    geminiClient = False, connecting = True, listening = False, pending = [],
    next_req = 1, rt_timers = [], rt_next_timer = 0, rt_clock = 0,
    terminated = False,
    trace =
      [Answer, Log LCallAnswered,
       Log (LCalling (JStr ''Dana'') (JStr ''+972500000000'') (JStr ''kyc'')),
       HttpPost 0
        [(''type'', JStr ''call_started''), (''call_id'', JStr ''c1''),
         (''lead_id'', JNum 7), (''lead_name'', JStr ''Dana''),
         (''lead_type'', JStr ''drop-off''),
         (''voximplant_call_id'', JStr ''vox-1''),
         (''timestamp'', JStr ''2025-01-01T00:00:00.000Z'')],
       Log (LWebhookSent (JStr ''call_started'')), Log LInitGemini,
       CreateLiveAPIClient]\<rparr>"
  by (simp add: connecting0_def start0_eval rt_step_def webhook_settled_def emit_def field_def)

lemma captured0_eval:
  "captured0 = bridged0
     \<lparr>pending := [(1, call_result_payload (callData bridged0) fc0, AfterResult fc0)],
      next_req := 2,
      trace := trace bridged0 @
        [Log (LFunctionCalled fc0), Log LSavingResult,
         HttpPost 1 (call_result_payload (callData bridged0) fc0)]\<rparr>"
  by (simp add: captured0_def bridged0_eval rt_step_def emit_def sendWebhook_def fc0_def)

subsection \<open>Awaited delivery\<close>

text \<open>
  C5, as stated: the runtime does not wait for the response of the webhook request before
  the next step of the transition. It does: on the sample call the AI-engine client is
  not created while the \<open>call_started\<close> request is in flight, however long that takes,
  and is created when the request settles.
\<close>

theorem next_step_before_response_counterexample:
  "CreateLiveAPIClient \<notin> set (trace (rt_run [Elapse 60000] start0)) \<and>
   CreateLiveAPIClient \<in> set (trace (rt_run [Elapse 60000, HttpDone 0 (Resolved 200)] start0))"
  by (simp add: start0_eval rt_step_def webhook_settled_def emit_def field_def)

text \<open>
  C5, amended: each lifecycle event (\<open>call_started\<close>, \<open>call_result\<close>, \<open>call_ended\<close>,
  \<open>call_error\<close>) is posted in the very step that handles its trigger, as the last effect
  of that step, and the rest of the handler is parked on the request. It stays parked
  under every event that does not settle that request, and runs when the request
  settles, whatever the outcome.
\<close>

theorem webhook_awaited_before_next_step:
  "effects (on_call_alerting (LeadObject ld) v n) =
     [Answer, HttpPost 0 (call_started_payload (callData (on_call_alerting (LeadObject ld) v n)) v n)] \<and>
   pending (on_call_alerting (LeadObject ld) v n) =
     [(0, call_started_payload (callData (on_call_alerting (LeadObject ld) v n)) v n, AfterStarted)] \<and>
   (listening s \<and> \<not> terminated s \<and> fc_name fc = JStr ''save_call_result'' \<and> fc_has_parameters fc \<longrightarrow>
      effects (rt_step (ToolCall fc) s) =
        effects s @ [HttpPost (next_req s) (call_result_payload (callData s) fc)] \<and>
      pending (rt_step (ToolCall fc) s) =
        pending s @ [(next_req s, call_result_payload (callData s) fc, AfterResult fc)]) \<and>
   (listening s \<and> \<not> terminated s \<and> (e = Disconnected \<or> e = Failed) \<longrightarrow>
      effects (rt_step e s) = effects s @ [HttpPost (next_req s) (call_ended_payload (callData s))] \<and>
      pending (rt_step e s) = pending s @ [(next_req s, call_ended_payload (callData s), AfterEnded)]) \<and>
   (connecting s \<and> \<not> terminated s \<longrightarrow>
      effects (rt_step (GeminiRejected m) s) =
        effects s @ [HttpPost (next_req s) (call_error_payload (callData s) m)] \<and>
      pending (rt_step (GeminiRejected m) s) =
        pending s @ [(next_req s, call_error_payload (callData s) m, AfterError)]) \<and>
   ((i, d, k) \<in> set (pending s) \<and> \<not> settles i e' \<longrightarrow> (i, d, k) \<in> set (pending (rt_step e' s))) \<and>
   (find_req i (pending s) = Some (d, k) \<and> \<not> terminated s \<longrightarrow>
      effects (rt_step (HttpDone i out) s) = effects s @ cont_effects k s \<and>
      find_req i (pending (rt_step (HttpDone i out) s)) = None)"
proof (intro conjI impI)
  show "effects (on_call_alerting (LeadObject ld) v n) =
     [Answer, HttpPost 0 (call_started_payload (callData (on_call_alerting (LeadObject ld) v n)) v n)]"
    by (simp add: on_call_alerting_def Let_def effects_sendWebhook effects_emit
          effects_def sendWebhook_simps emit_simps runtime_init_def)
  show "pending (on_call_alerting (LeadObject ld) v n) =
     [(0, call_started_payload (callData (on_call_alerting (LeadObject ld) v n)) v n, AfterStarted)]"
    by (simp add: on_call_alerting_def Let_def sendWebhook_simps emit_simps runtime_init_def)
next
  assume a: "listening s \<and> \<not> terminated s \<and> fc_name fc = JStr ''save_call_result'' \<and> fc_has_parameters fc"
  then show "effects (rt_step (ToolCall fc) s) =
        effects s @ [HttpPost (next_req s) (call_result_payload (callData s) fc)]"
    by (simp add: rt_step_def Let_def effects_sendWebhook effects_emit emit_simps)
  from a show "pending (rt_step (ToolCall fc) s) =
        pending s @ [(next_req s, call_result_payload (callData s) fc, AfterResult fc)]"
    by (simp add: rt_step_def Let_def sendWebhook_simps emit_simps)
next
  assume a: "listening s \<and> \<not> terminated s \<and> (e = Disconnected \<or> e = Failed)"
  then show "effects (rt_step e s) =
      effects s @ [HttpPost (next_req s) (call_ended_payload (callData s))]"
    by (auto simp: rt_step_def effects_sendWebhook effects_emit emit_simps)
  from a show "pending (rt_step e s) =
      pending s @ [(next_req s, call_ended_payload (callData s), AfterEnded)]"
    by (auto simp: rt_step_def sendWebhook_simps emit_simps)
next
  assume a: "connecting s \<and> \<not> terminated s"
  then show "effects (rt_step (GeminiRejected m) s) =
        effects s @ [HttpPost (next_req s) (call_error_payload (callData s) m)]"
    by (simp add: rt_step_def effects_catch_block effects_update catch_block_simps)
  from a show "pending (rt_step (GeminiRejected m) s) =
        pending s @ [(next_req s, call_error_payload (callData s) m, AfterError)]"
    by (simp add: rt_step_def catch_block_simps)
next
  assume "(i, d, k) \<in> set (pending s) \<and> \<not> settles i e'"
  then show "(i, d, k) \<in> set (pending (rt_step e' s))"
    by (simp add: pending_other_event)
next
  assume a: "find_req i (pending s) = Some (d, k) \<and> \<not> terminated s"
  then show "effects (rt_step (HttpDone i out) s) = effects s @ cont_effects k s"
    by (simp add: settle_runs_cont)
  from a show "find_req i (pending (rt_step (HttpDone i out) s)) = None"
    by (simp add: settle_runs_cont)
qed

theorem webhook_awaited_before_next_step_witness:
  "listening captured0 \<and> \<not> terminated captured0 \<and> fc_name fc0 = JStr ''save_call_result'' \<and> fc_has_parameters fc0 \<and>
   effects (rt_step (ToolCall fc0) captured0) =
     effects captured0 @ [HttpPost 2 (call_result_payload (callData captured0) fc0)] \<and>
   effects (rt_step Disconnected captured0) =
     effects captured0 @ [HttpPost 2 (call_ended_payload (callData captured0))] \<and>
   connecting connecting0 \<and> \<not> terminated connecting0 \<and>
   effects (rt_step (GeminiRejected ''refused'') connecting0) =
     effects connecting0 @ [HttpPost 1 (call_error_payload (callData connecting0) ''refused'')] \<and>
   (1, call_result_payload (callData bridged0) fc0, AfterResult fc0) \<in> set (pending captured0) \<and>
   \<not> settles 1 (Elapse 60000) \<and>
   (1, call_result_payload (callData bridged0) fc0, AfterResult fc0)
     \<in> set (pending (rt_step (Elapse 60000) captured0)) \<and>
   find_req 1 (pending captured0) =
     Some (call_result_payload (callData bridged0) fc0, AfterResult fc0) \<and>
   effects (rt_step (HttpDone 1 (Rejected ''timeout'')) captured0) =
     effects captured0 @ [SendToolResponse (JStr ''f1''), SetTimeout 0 4000]"
proof -
  have c: "listening captured0" "\<not> terminated captured0" "next_req captured0 = 2"
    "pending captured0 = [(1, call_result_payload (callData bridged0) fc0, AfterResult fc0)]"
    "geminiClient captured0" "rt_next_timer captured0 = 0"
    by (simp_all add: captured0_eval bridged0_eval)
  have k: "connecting connecting0" "\<not> terminated connecting0" "next_req connecting0 = 1"
    by (simp_all add: connecting0_eval)
  have f: "fc_name fc0 = JStr ''save_call_result'' \<and> fc_has_parameters fc0" "fc_id fc0 = JStr ''f1''"
    by (simp_all add: fc0_def)
  show ?thesis
    using webhook_awaited_before_next_step
        [where s = captured0 and fc = fc0 and e = Disconnected and e' = "Elapse 60000"
           and i = 1 and d = "call_result_payload (callData bridged0) fc0"
           and k = "AfterResult fc0" and out = "Rejected ''timeout''"]
      webhook_awaited_before_next_step
        [where s = connecting0 and m = "''refused''"]
    by (simp add: c k f)
qed

subsection \<open>Requests in flight\<close>

lemma rt_run_append: "rt_run (es @ es') s = rt_run es' (rt_run es s)"
  by (induction es arbitrary: s) simp_all

lemma terminated_step: "terminated s \<Longrightarrow> rt_step e s = s"
  by (simp add: rt_step_def)

lemma terminated_run: "terminated s \<Longrightarrow> rt_run es s = s"
  by (induction es) (simp_all add: terminated_step)

lemma find_req_append:
  "find_req i rs = Some x \<Longrightarrow> find_req i (rs @ rs') = Some x"
  by (induction rs) auto

lemma find_req_filter_other:
  "i \<noteq> j \<Longrightarrow> find_req i (filter (\<lambda>r. fst r \<noteq> j) rs) = find_req i rs"
  by (induction rs) auto

lemma find_req_step:
  assumes "find_req i (pending s) = Some x" and "\<not> settles i e"
  shows "find_req i (pending (rt_step e s)) = Some x"
proof (cases "terminated s")
  case True
  with assms show ?thesis by (simp add: terminated_step)
next
  case False
  show ?thesis
  proof (cases e)
    case (HttpDone j out)
    with assms(2) have ij: "i \<noteq> j" by simp
    show ?thesis
      using assms(1) False ij
      by (simp add: HttpDone rt_step_def run_cont_simps webhook_settled_simps
            find_req_filter_other split: option.splits del: run_cont.simps)
  next
    case (Elapse d)
    with assms False show ?thesis by (simp add: rt_step_def Let_def rt_fire_due_simps)
  qed (use assms False in \<open>simp_all add: rt_step_def Let_def catch_block_simps
         sendWebhook_simps emit_simps find_req_append\<close>)
qed

lemma find_req_run:
  "find_req i (pending s) = Some x \<Longrightarrow> list_all (\<lambda>e. \<not> settles i e) es \<Longrightarrow>
     find_req i (pending (rt_run es s)) = Some x"
  by (induction es arbitrary: s) (simp_all add: find_req_step)




subsection \<open>Carrier failure\<close>




subsection \<open>Webhook delivery\<close>

lemma posts_step_posted_by:
  "posts (trace (rt_step e s)) = posts (trace s) @ (if terminated s then [] else posted_by e s)"
  by (cases e) (simp_all add: posts_rt_step)

lemma length_posted_by: "length (posted_by e s) \<le> 1"
  by (cases e) simp_all

lemma trace_run_cont: "trace (run_cont k s) = trace s @ cont_trace k s"
  by (cases k) (simp_all add: emit_simps setTimeout_simps hangup_delay_def)

lemma cont_trace_cong:
  "geminiClient s = geminiClient s' \<Longrightarrow> rt_next_timer s = rt_next_timer s' \<Longrightarrow>
     cont_trace k s = cont_trace k s'"
  by (cases k) simp_all

lemma settle_trace:
  assumes "find_req i (pending s) = Some (d, k)" and "\<not> terminated s"
  shows "trace (rt_step (HttpDone i out) s) = trace s @ Log (outcome_line out d) # cont_trace k s"
proof -
  let ?p = "filter (\<lambda>r. fst r \<noteq> i) (pending s)"
  let ?s1 = "webhook_settled out d (s\<lparr>pending := ?p\<rparr>)"
  have st: "rt_step (HttpDone i out) s = run_cont k ?s1"
    using assms by (simp add: rt_step_def)
  have tr: "trace ?s1 = trace s @ [Log (outcome_line out d)]"
    by (cases out) (simp_all add: webhook_settled_def emit_def)
  have ct: "cont_trace k ?s1 = cont_trace k s"
    by (rule cont_trace_cong) (simp_all add: webhook_settled_simps)
  show ?thesis
    unfolding st trace_run_cont tr ct by simp
qed

text \<open>
  C7, as stated: every delivery failure, a network error or a response that is not 2xx,
  is logged. A response with status 500 is not logged as a failure: the runtime does
  with it exactly what it does with a 200, and the line it writes is the one of a sent
  webhook.
\<close>

theorem non_2xx_logged_as_sent_counterexample:
  "rt_step (HttpDone 0 (Resolved 500)) start0 = rt_step (HttpDone 0 (Resolved 200)) start0 \<and>
   trace (rt_step (HttpDone 0 (Resolved 500)) start0) =
     trace start0 @ [Log (LWebhookSent (JStr ''call_started'')), Log LInitGemini,
                     CreateLiveAPIClient]"
  by (simp add: start0_eval rt_step_def webhook_settled_def emit_def field_def)

text \<open>
  C7, amended: each event posts at most one body, and the settlement of a request posts
  none (nothing is retried). When a request in flight settles, the runtime writes one
  log line and goes on with the code that awaited it: the line reports a failure when the
  request was rejected with an error, and a sent webhook when there was a response,
  whatever its status (the status is never read). The outcome has no other effect: two
  outcomes of the same request lead to states that differ in their log lines only, and
  so do two runs that differ in the outcomes of their requests only.
\<close>

theorem webhook_outcome_only_logged:
  "posts (trace (rt_step e s)) = posts (trace s) @ (if terminated s then [] else posted_by e s) \<and>
   length (posted_by e s) \<le> 1 \<and>
   posted_by (HttpDone i out) s = [] \<and>
   (find_req i (pending s) = Some (d, k) \<and> \<not> terminated s \<longrightarrow>
      trace (rt_step (HttpDone i out) s) =
        trace s @ Log (outcome_line out d) # cont_trace k s) \<and>
   outcome_line (Rejected m) d = LWebhookFailed m \<and>
   outcome_line (Resolved code) d = LWebhookSent (field d ''type'') \<and>
   strip_logs (rt_step (HttpDone i out) s) = strip_logs (rt_step (HttpDone i out') s) \<and>
   (map forget_outcome es = map forget_outcome es' \<longrightarrow>
      strip_logs (rt_run es s) = strip_logs (rt_run es' s))"
proof (intro conjI impI)
  show "posts (trace (rt_step e s)) =
      posts (trace s) @ (if terminated s then [] else posted_by e s)"
    by (rule posts_step_posted_by)
  show "length (posted_by e s) \<le> 1" by (rule length_posted_by)
  show "posted_by (HttpDone i out) s = []" by simp
  show "outcome_line (Rejected m) d = LWebhookFailed m" by simp
  show "outcome_line (Resolved code) d = LWebhookSent (field d ''type'')" by simp
  show "strip_logs (rt_step (HttpDone i out) s) = strip_logs (rt_step (HttpDone i out') s)"
    by (rule cong_http) simp
next
  assume "find_req i (pending s) = Some (d, k) \<and> \<not> terminated s"
  then show "trace (rt_step (HttpDone i out) s) =
        trace s @ Log (outcome_line out d) # cont_trace k s"
    by (simp add: settle_trace)
next
  assume "map forget_outcome es = map forget_outcome es'"
  then show "strip_logs (rt_run es s) = strip_logs (rt_run es' s)"
    by (rule rt_run_cong [OF refl])
qed

theorem webhook_outcome_only_logged_witness:
  "find_req 1 (pending captured0) =
     Some (call_result_payload (callData bridged0) fc0, AfterResult fc0) \<and>
   \<not> terminated captured0 \<and>
   trace (rt_step (HttpDone 1 (Rejected ''ECONNREFUSED'')) captured0) =
     trace captured0 @
       [Log (LWebhookFailed ''ECONNREFUSED''), SendToolResponse (JStr ''f1''),
        Log (LResultSaved (JStr ''COMPLETED_REGISTRATION'') (JNum 9) (JStr ''ok'')),
        SetTimeout 0 4000] \<and>
   trace (rt_step (HttpDone 1 (Resolved 500)) captured0) =
     trace captured0 @
       [Log (LWebhookSent (JStr ''call_result'')), SendToolResponse (JStr ''f1''),
        Log (LResultSaved (JStr ''COMPLETED_REGISTRATION'') (JNum 9) (JStr ''ok'')),
        SetTimeout 0 4000] \<and>
   map forget_outcome [HttpDone 0 (Rejected ''ECONNREFUSED''), GeminiReady, ToolCall fc0,
      HttpDone 1 (Resolved 500)] =
   map forget_outcome [HttpDone 0 (Resolved 200), GeminiReady, ToolCall fc0,
      HttpDone 1 (Resolved 200)] \<and>
   strip_logs (rt_run [HttpDone 0 (Rejected ''ECONNREFUSED''), GeminiReady, ToolCall fc0,
      HttpDone 1 (Resolved 500)] start0) =
   strip_logs (rt_run [HttpDone 0 (Resolved 200), GeminiReady, ToolCall fc0,
      HttpDone 1 (Resolved 200)] start0)"
proof -
  let ?d = "call_result_payload (callData bridged0) fc0"
  have c: "find_req 1 (pending captured0) = Some (?d, AfterResult fc0) \<and> \<not> terminated captured0"
    by (simp add: captured0_eval bridged0_eval)
  have nt: "rt_next_timer captured0 = 0"
    by (simp add: captured0_eval bridged0_eval)
  have f: "fc_id fc0 = JStr ''f1''" "fc_disposition fc0 = JStr ''COMPLETED_REGISTRATION''"
    "fc_cx_score fc0 = JNum 9" "fc_summary fc0 = JStr ''ok''"
    "field ?d ''type'' = JStr ''call_result''"
    by (simp_all add: fc0_def type_of_payloads)
  have m: "map forget_outcome [HttpDone 0 (Rejected ''ECONNREFUSED''), GeminiReady, ToolCall fc0,
      HttpDone 1 (Resolved 500)] =
     map forget_outcome [HttpDone 0 (Resolved 200), GeminiReady, ToolCall fc0,
      HttpDone 1 (Resolved 200)]"
    by simp
  note A = webhook_outcome_only_logged
        [where s = captured0 and i = 1 and out = "Rejected ''ECONNREFUSED''"
           and d = ?d and k = "AfterResult fc0",
         THEN conjunct2, THEN conjunct2, THEN conjunct2, THEN conjunct1, rule_format, OF c]
  note B = webhook_outcome_only_logged
        [where s = captured0 and i = 1 and out = "Resolved 500"
           and d = ?d and k = "AfterResult fc0",
         THEN conjunct2, THEN conjunct2, THEN conjunct2, THEN conjunct1, rule_format, OF c]
  note C = webhook_outcome_only_logged
      [where s = start0
         and es = "[HttpDone 0 (Rejected ''ECONNREFUSED''), GeminiReady, ToolCall fc0,
            HttpDone 1 (Resolved 500)]"
         and es' = "[HttpDone 0 (Resolved 200), GeminiReady, ToolCall fc0,
            HttpDone 1 (Resolved 200)]",
       THEN conjunct2, THEN conjunct2, THEN conjunct2, THEN conjunct2, THEN conjunct2,
       THEN conjunct2, THEN conjunct2, rule_format, OF m]
  have a: "trace (rt_step (HttpDone 1 (Rejected ''ECONNREFUSED'')) captured0) =
     trace captured0 @
       [Log (LWebhookFailed ''ECONNREFUSED''), SendToolResponse (JStr ''f1''),
        Log (LResultSaved (JStr ''COMPLETED_REGISTRATION'') (JNum 9) (JStr ''ok'')),
        SetTimeout 0 4000]"
    using A by (simp only: outcome_line.simps cont_trace.simps f nt)
  have b: "trace (rt_step (HttpDone 1 (Resolved 500)) captured0) =
     trace captured0 @
       [Log (LWebhookSent (JStr ''call_result'')), SendToolResponse (JStr ''f1''),
        Log (LResultSaved (JStr ''COMPLETED_REGISTRATION'') (JNum 9) (JStr ''ok'')),
        SetTimeout 0 4000]"
    using B by (simp only: outcome_line.simps cont_trace.simps f nt)
  show ?thesis
    using c a b m C by (intro conjI) (simp_all only: simp_thms)
qed

subsection \<open>Grace delay\<close>

lemma rt_timers_step_cases:
  "rt_timers (rt_step e s) =
     (if terminated s then rt_timers s
      else case e of
        HttpDone i out \<Rightarrow>
          (case find_req i (pending s) of
             Some (d, AfterResult fc) \<Rightarrow> rt_timers s @ [(rt_next_timer s, rt_clock s + 4000)]
           | _ \<Rightarrow> rt_timers s)
      | Elapse d \<Rightarrow>
          filter (\<lambda>t. fst t \<notin> fst ` set (filter (\<lambda>t. snd t \<le> rt_clock s + d) (rt_timers s)))
            (rt_timers s)
      | _ \<Rightarrow> rt_timers s)"
proof (cases e)
  case (HttpDone i out)
  then show ?thesis
    by (simp add: rt_step_def run_cont_more webhook_settled_simps
          split: option.splits cont.splits del: run_cont.simps)
next
  case (Elapse d)
  then show ?thesis by (simp add: rt_step_def Let_def timers_rt_fire_due)
qed (simp_all add: rt_step_def Let_def catch_block_simps sendWebhook_simps emit_simps)

lemma rt_next_timer_step_cases:
  "rt_next_timer (rt_step e s) =
     (if terminated s then rt_next_timer s
      else case e of
        HttpDone i out \<Rightarrow>
          (case find_req i (pending s) of
             Some (d, AfterResult fc) \<Rightarrow> Suc (rt_next_timer s)
           | _ \<Rightarrow> rt_next_timer s)
      | _ \<Rightarrow> rt_next_timer s)"
proof (cases e)
  case (HttpDone i out)
  then show ?thesis
    by (simp add: rt_step_def run_cont_more webhook_settled_simps
          split: option.splits cont.splits del: run_cont.simps)
next
  case (Elapse d)
  then show ?thesis by (simp add: rt_step_def Let_def rt_fire_due_simps)
qed (simp_all add: rt_step_def Let_def catch_block_simps sendWebhook_simps emit_simps)

lemma rt_clock_step_cases:
  "rt_clock (rt_step e s) =
     (if terminated s then rt_clock s
      else case e of Elapse d \<Rightarrow> rt_clock s + d | _ \<Rightarrow> rt_clock s)"
proof (cases e)
  case (HttpDone i out)
  then show ?thesis
    by (simp add: rt_step_def run_cont_simps webhook_settled_simps
          split: option.splits del: run_cont.simps)
next
  case (Elapse d)
  then show ?thesis by (simp add: rt_step_def Let_def rt_fire_due_simps)
qed (simp_all add: rt_step_def Let_def catch_block_simps sendWebhook_simps emit_simps)

lemma rt_clock_mono_step: "rt_clock s \<le> rt_clock (rt_step e s)"
  by (simp add: rt_clock_step_cases split: rt_event.splits)

lemma distinct_map_filter_fst: "distinct (map fst xs) \<Longrightarrow> distinct (map fst (filter P xs))"
  by (induction xs) auto

lemma timers_inv_start: "timers_inv (on_call_alerting c v n)"
  by (cases c)
     (simp_all add: timers_inv_def on_call_alerting_def Let_def catch_block_simps
        sendWebhook_simps emit_simps runtime_init_def)

lemma timers_inv_step:
  assumes "timers_inv s"
  shows "timers_inv (rt_step e s)"
proof -
  have d: "distinct (map fst (rt_timers s))" and b: "\<forall>t \<in> set (rt_timers s). fst t < rt_next_timer s"
    using assms by (simp_all add: timers_inv_def)
  have fresh: "rt_next_timer s \<notin> fst ` set (rt_timers s)"
    using b by auto
  show ?thesis
    unfolding timers_inv_def rt_timers_step_cases rt_next_timer_step_cases
    using d b fresh
    by (auto simp: distinct_map_filter_fst less_Suc_eq
          split: rt_event.splits option.splits cont.splits)
qed

lemma timers_inv_run: "timers_inv s \<Longrightarrow> timers_inv (rt_run es s)"
  by (induction es arbitrary: s) (simp_all add: timers_inv_step)

lemma timers_inv_session: "timers_inv (session c v n es)"
  by (simp add: session_def timers_inv_run timers_inv_start)

text \<open>A timeout stays pending until the clock has reached its due time.\<close>

lemma timer_kept_step:
  assumes "timers_inv s" and "tm \<in> set (rt_timers s) \<or> snd tm \<le> rt_clock s"
  shows "tm \<in> set (rt_timers (rt_step e s)) \<or> snd tm \<le> rt_clock (rt_step e s)"
proof (cases "snd tm \<le> rt_clock s")
  case True
  with rt_clock_mono_step [of s e] show ?thesis by simp
next
  case False
  with assms(2) have mem: "tm \<in> set (rt_timers s)" by simp
  have d: "distinct (map fst (rt_timers s))"
    using assms(1) by (simp add: timers_inv_def)
  have uniq: "t \<in> set (rt_timers s) \<Longrightarrow> fst t = fst tm \<Longrightarrow> t = tm" for t
    using d mem by (meson eq_key_imp_eq_value prod.collapse distinct_map inj_onD)
  show ?thesis
  proof (cases "terminated s")
    case True
    with mem show ?thesis by (simp add: terminated_step)
  next
    case live: False
    show ?thesis
    proof (cases e)
      case (Elapse dd)
      show ?thesis
      proof (cases "snd tm \<le> rt_clock s + dd")
        case True
        then show ?thesis using live by (simp add: Elapse rt_clock_step_cases)
      next
        case nd: False
        have "fst tm \<notin> fst ` set (filter (\<lambda>t. snd t \<le> rt_clock s + dd) (rt_timers s))"
        proof
          assume "fst tm \<in> fst ` set (filter (\<lambda>t. snd t \<le> rt_clock s + dd) (rt_timers s))"
          then obtain t where t: "t \<in> set (rt_timers s)" "snd t \<le> rt_clock s + dd" "fst t = fst tm"
            by auto
          with uniq have "t = tm" by simp
          with t nd show False by simp
        qed
        with mem live show ?thesis by (simp add: Elapse rt_timers_step_cases)
      qed
    next
      case (HttpDone i out)
      with mem live show ?thesis
        by (simp add: rt_timers_step_cases split: option.splits cont.splits)
    qed (use mem live in \<open>simp_all add: rt_timers_step_cases\<close>)
  qed
qed

lemma timer_kept_run:
  "timers_inv s \<Longrightarrow> tm \<in> set (rt_timers s) \<or> snd tm \<le> rt_clock s \<Longrightarrow>
     tm \<in> set (rt_timers (rt_run es s)) \<or> snd tm \<le> rt_clock (rt_run es s)"
proof (induction es arbitrary: s)
  case Nil
  then show ?case by simp
next
  case (Cons e es)
  have "timers_inv (rt_step e s)" using Cons.prems(1) by (rule timers_inv_step)
  moreover have "tm \<in> set (rt_timers (rt_step e s)) \<or> snd tm \<le> rt_clock (rt_step e s)"
    using Cons.prems by (rule timer_kept_step)
  ultimately show ?case using Cons.IH by simp
qed

lemma elapse_effects:
  "\<not> terminated s \<Longrightarrow>
     effects (rt_step (Elapse d) s) = effects s @ replicate (length (due_after d s)) Hangup"
  by (simp add: rt_step_def Let_def effects_rt_fire_due effects_update due_after_def)

lemma elapse_removes_due:
  "\<not> terminated s \<Longrightarrow> tm \<in> set (due_after d s) \<Longrightarrow>
     tm \<notin> set (rt_timers (rt_step (Elapse d) s))"
  by (auto simp: rt_timers_step_cases due_after_def)

lemma due_after_new:
  "rt_timers s2 = rt_timers s' @ [(i, rt_clock s' + 4000)] \<Longrightarrow> rt_clock s2 = rt_clock s' \<Longrightarrow>
     due_after d s2 = due_after d s' @ (if 4000 \<le> d then [(i, rt_clock s' + 4000)] else [])"
  by (simp add: due_after_def)

lemma waiting0_eval:
  "rt_timers waiting0 = []" "rt_next_timer waiting0 = 0" "rt_clock waiting0 = 10000"
  "\<not> terminated waiting0"
  by (simp_all add: waiting0_def captured0_eval bridged0_eval rt_step_def)

lemma settled0_eval:
  "rt_timers settled0 = [(0, 14000)]" "rt_clock settled0 = 10000" "\<not> terminated settled0"
  by (simp_all add: settled0_def waiting0_def captured0_eval bridged0_eval rt_step_def
        webhook_settled_def emit_def setTimeout_def hangup_delay_def)

lemma grace0_eval:
  "rt_timers grace0 = [(0, 14000)]" "rt_clock grace0 = 12000" "\<not> terminated grace0"
  by (simp_all add: grace0_def rt_step_def settled0_eval)

text \<open>
  C6, as stated: in every call in which the outcome-capture function has fired, the
  runtime waits 4 seconds and then hangs up. On the sample call: with the \<open>call_result\<close>
  request still in flight there is no hang-up an hour after the function fired; with a
  request that takes 10 seconds there is none 13.999 seconds after it fired and one at
  14 seconds; and when the remote side hangs up in the grace period the session
  terminates with no hang-up by the runtime.
\<close>

theorem hangup_counts_from_settlement_counterexample:
  "Hangup \<notin> set (trace (rt_run [ToolCall fc0, Elapse 3600000] bridged0)) \<and>
   Hangup \<notin> set (trace (rt_run [ToolCall fc0, Elapse 10000, HttpDone 1 (Resolved 200),
      Elapse 3999] bridged0)) \<and>
   Hangup \<in> set (trace (rt_run [ToolCall fc0, Elapse 10000, HttpDone 1 (Resolved 200),
      Elapse 4000] bridged0)) \<and>
   Hangup \<notin> set (trace (rt_run [ToolCall fc0, HttpDone 1 (Resolved 200), Elapse 1000,
      Disconnected, HttpDone 2 (Resolved 200), Elapse 3000] bridged0))"
  by (simp add: bridged0_eval rt_step_def fc0_def emit_def sendWebhook_def setTimeout_def
        hangup_delay_def hangup_cb_def webhook_settled_def field_def
        call_result_payload_def call_ended_payload_def)

text \<open>
  C6, amended: in every session, the function firing posts \<open>call_result\<close> and sets no
  timeout; when that request settles, whatever happened meanwhile short of the session
  terminating, the runtime acknowledges the function call and sets a timeout of 4000
  milliseconds from that moment. While fewer than 4000 milliseconds have passed since
  the settlement the timeout is still pending, whatever happens; with time alone
  passing, the hang-ups are those of the timeouts set earlier and, from 4000
  milliseconds on, that of this one; and whenever the timeout is pending in a session
  that has not terminated, a passage of time that reaches its due time makes the runtime
  hang up. A session that has terminated does nothing more.
\<close>

theorem hangup_after_grace_delay:
  assumes "s = session c v n es0" and "listening s" and "\<not> terminated s"
    and "fc_name fc = JStr ''save_call_result'' \<and> fc_has_parameters fc"
    and "s' = rt_run es (rt_step (ToolCall fc) s)"
    and "list_all (\<lambda>e. \<not> settles (next_req s) e) es"
    and "\<not> terminated s'"
    and "s2 = rt_step (HttpDone (next_req s) out) s'"
    and "t = rt_run es2 s2"
    and "tm = (rt_next_timer s', rt_clock s' + 4000)"
  shows "effects (rt_step (ToolCall fc) s) =
      effects s @ [HttpPost (next_req s) (call_result_payload (callData s) fc)] \<and>
    effects s2 = effects s' @ [SendToolResponse (fc_id fc), SetTimeout (rt_next_timer s') 4000] \<and>
    rt_timers s2 = rt_timers s' @ [tm] \<and>
    effects (rt_step (Elapse d) s2) =
      effects s2 @ replicate (length (due_after d s') + (if 4000 \<le> d then 1 else 0)) Hangup \<and>
    (rt_clock t < rt_clock s' + 4000 \<longrightarrow> tm \<in> set (rt_timers t)) \<and>
    (tm \<in> set (rt_timers t) \<and> \<not> terminated t \<and> rt_clock s' + 4000 \<le> rt_clock t + d \<longrightarrow>
       tm \<in> set (due_after d t) \<and>
       effects (rt_step (Elapse d) t) = effects t @ replicate (length (due_after d t)) Hangup \<and>
       tm \<notin> set (rt_timers (rt_step (Elapse d) t))) \<and>
    (terminated t \<longrightarrow> rt_run es3 t = t)"
proof -
  let ?p = "call_result_payload (callData s) fc"
  let ?s1 = "rt_step (ToolCall fc) s"
  have inv: "session_inv s"
    unfolding assms(1) by (rule session_inv_session)
  have s1: "?s1 = sendWebhook ?p (AfterResult fc)
      (emit (Log LSavingResult) (emit (Log (LFunctionCalled fc)) s))"
    using assms(2-4) by (simp add: rt_step_def Let_def emit_simps)
  have e1: "effects ?s1 = effects s @ [HttpPost (next_req s) ?p]"
    by (simp add: s1 effects_sendWebhook effects_emit emit_simps)
  have "find_req (next_req s) (pending ?s1) = Some (?p, AfterResult fc)"
    unfolding s1 using find_req_new [OF inv] by (simp add: sendWebhook_simps emit_simps)
  then have found: "find_req (next_req s) (pending s') = Some (?p, AfterResult fc)"
    unfolding assms(5) using assms(6) by (rule find_req_run)
  have "effects s2 = effects s' @ cont_effects (AfterResult fc) s'"
    unfolding assms(8) by (rule settle_runs_cont(1) [OF found assms(7)])
  then have eff: "effects s2 =
      effects s' @ [SendToolResponse (fc_id fc), SetTimeout (rt_next_timer s') 4000]"
    by simp
  have timers: "rt_timers s2 = rt_timers s' @ [tm]"
    unfolding assms(8) assms(10) using found assms(7) by (simp add: rt_timers_step_cases)
  have clock: "rt_clock s2 = rt_clock s'"
    unfolding assms(8) by (simp add: rt_clock_step_cases)
  have live2: "\<not> terminated s2"
    unfolding assms(8) using found assms(7)
    by (simp add: rt_step_def run_cont_more webhook_settled_simps del: run_cont.simps)
  have due2: "due_after d s2 = due_after d s' @ (if 4000 \<le> d then [tm] else [])"
    using timers clock unfolding assms(10) by (rule due_after_new)
  have fire: "effects (rt_step (Elapse d) s2) =
      effects s2 @ replicate (length (due_after d s') + (if 4000 \<le> d then 1 else 0)) Hangup"
    by (simp add: elapse_effects [OF live2] due2)
  have tinv: "timers_inv s2"
    unfolding assms(8) assms(5) assms(1)
    by (intro timers_inv_step timers_inv_run timers_inv_session)
  have "tm \<in> set (rt_timers s2) \<or> snd tm \<le> rt_clock s2"
    by (simp add: timers)
  with tinv have kept: "tm \<in> set (rt_timers t) \<or> snd tm \<le> rt_clock t"
    unfolding assms(9) by (rule timer_kept_run)
  have 5: "tm \<in> set (rt_timers t)" if "rt_clock t < rt_clock s' + 4000"
    using kept that by (auto simp: assms(10))
  have 6: "tm \<in> set (due_after d t) \<and>
       effects (rt_step (Elapse d) t) = effects t @ replicate (length (due_after d t)) Hangup \<and>
       tm \<notin> set (rt_timers (rt_step (Elapse d) t))"
    if h: "tm \<in> set (rt_timers t) \<and> \<not> terminated t \<and> rt_clock s' + 4000 \<le> rt_clock t + d"
  proof -
    from h have due: "tm \<in> set (due_after d t)"
      by (simp add: due_after_def assms(10))
    from h have lt: "\<not> terminated t" by simp
    show ?thesis
      using due elapse_effects [OF lt] elapse_removes_due [OF lt due] by simp
  qed
  have 7: "rt_run es3 t = t" if "terminated t"
    using that by (rule terminated_run)
  show ?thesis
    using e1 eff timers fire 5 6 7 by blast
qed

theorem hangup_after_grace_delay_witness:
  "bridged0 = session (LeadObject lead0) (JStr ''vox-1'') ''2025-01-01T00:00:00.000Z''
      [HttpDone 0 (Resolved 200), GeminiReady] \<and>
   listening bridged0 \<and> \<not> terminated bridged0 \<and>
   (fc_name fc0 = JStr ''save_call_result'' \<and> fc_has_parameters fc0) \<and>
   waiting0 = rt_run [Elapse 10000] (rt_step (ToolCall fc0) bridged0) \<and>
   list_all (\<lambda>e. \<not> settles (next_req bridged0) e) [Elapse 10000] \<and>
   \<not> terminated waiting0 \<and>
   settled0 = rt_step (HttpDone (next_req bridged0) (Resolved 200)) waiting0 \<and>
   grace0 = rt_run [Elapse 2000] settled0 \<and>
   rt_timers settled0 = [(0, 14000)] \<and>
   effects (rt_step (Elapse 3999) settled0) = effects settled0 \<and>
   effects (rt_step (Elapse 4000) settled0) = effects settled0 @ [Hangup] \<and>
   (0, 14000) \<in> set (rt_timers grace0) \<and>
   effects (rt_step (Elapse 2000) grace0) = effects grace0 @ [Hangup]"
proof -
  have h1: "bridged0 = session (LeadObject lead0) (JStr ''vox-1'') ''2025-01-01T00:00:00.000Z''
      [HttpDone 0 (Resolved 200), GeminiReady]"
    by (simp only: session_def bridged0_def start0_def)
  have h2: "listening bridged0" by (simp add: bridged0_eval)
  have h3: "\<not> terminated bridged0" by (simp add: bridged0_eval)
  have h4: "fc_name fc0 = JStr ''save_call_result'' \<and> fc_has_parameters fc0"
    by (simp add: fc0_def)
  have n: "next_req bridged0 = 1" by (simp add: bridged0_eval)
  have h5: "waiting0 = rt_run [Elapse 10000] (rt_step (ToolCall fc0) bridged0)"
    by (simp add: waiting0_def captured0_def)
  have h6: "list_all (\<lambda>e. \<not> settles (next_req bridged0) e) [Elapse 10000]"
    by simp
  have h7: "\<not> terminated waiting0" by (rule waiting0_eval)
  have h8: "settled0 = rt_step (HttpDone (next_req bridged0) (Resolved 200)) waiting0"
    by (simp add: settled0_def n)
  have h9: "grace0 = rt_run [Elapse 2000] settled0" by (rule grace0_def)
  have h10: "((0::nat), (14000::nat)) = (rt_next_timer waiting0, rt_clock waiting0 + 4000)"
    by (simp add: waiting0_eval)
  note T = hangup_after_grace_delay [OF h1 h2 h3 h4 h5 h6 h7 h8 h9 h10]
  have dw: "due_after d waiting0 = []" for d
    by (simp add: due_after_def waiting0_eval)
  have dg: "due_after 2000 grace0 = [(0, 14000)]"
    by (simp add: due_after_def grace0_eval)
  have a: "effects (rt_step (Elapse 3999) settled0) = effects settled0"
    using T [of 3999, THEN conjunct2, THEN conjunct2, THEN conjunct2, THEN conjunct1]
    by (simp add: dw)
  have b: "effects (rt_step (Elapse 4000) settled0) = effects settled0 @ [Hangup]"
    using T [of 4000, THEN conjunct2, THEN conjunct2, THEN conjunct2, THEN conjunct1]
    by (simp add: dw)
  have c: "(0, 14000) \<in> set (rt_timers grace0)"
    using T [of 0, THEN conjunct2, THEN conjunct2, THEN conjunct2, THEN conjunct2,
             THEN conjunct1]
    by (simp add: grace0_eval waiting0_eval)
  have d: "effects (rt_step (Elapse 2000) grace0) = effects grace0 @ [Hangup]"
    using T [of 2000, THEN conjunct2, THEN conjunct2, THEN conjunct2, THEN conjunct2,
             THEN conjunct2, THEN conjunct1] c
    by (simp add: grace0_eval waiting0_eval dg)
  show ?thesis
    using h1 h2 h3 h4 h5 h6 h7 h8 h9 a b c d settled0_eval(1)
    by (intro conjI) (simp_all only: simp_thms)
qed

section \<open>Properties of the broadcast channel client\<close>

lemma connect_simps:
  "sockets (connect ok s) =
     sockets s @ (if ok \<and> \<not> isCleanedUp s then [Connecting] else [])"
  "isCleanedUp (connect ok s) = isCleanedUp s"
  "ws_clock (connect ok s) = ws_clock s"
  "delivered (connect ok s) = delivered s"
  "sent (connect ok s) = sent s"
  "ws_timers (connect ok s) = ws_timers s"
  "isConnected (connect ok s) = isConnected s"
  by (simp_all add: connect_def)

lemma reconnect_cb_simps:
  "sockets (reconnect_cb ok s) =
     sockets s @ (if ok \<and> \<not> isCleanedUp s then [Connecting] else [])"
  "isCleanedUp (reconnect_cb ok s) = isCleanedUp s"
  "ws_clock (reconnect_cb ok s) = ws_clock s"
  "delivered (reconnect_cb ok s) = delivered s"
  "sent (reconnect_cb ok s) = sent s"
  "isConnected (reconnect_cb ok s) = isConnected s"
  by (simp_all add: reconnect_cb_def connect_simps)

lemma fire_due_simps:
  "isCleanedUp (fire_due ok ts s) = isCleanedUp s"
  "ws_clock (fire_due ok ts s) = ws_clock s"
  "delivered (fire_due ok ts s) = delivered s"
  "sent (fire_due ok ts s) = sent s"
  "isConnected (fire_due ok ts s) = isConnected s"
  by (induction ok ts s rule: fire_due.induct; simp add: reconnect_cb_simps)+

lemma fire_due_sockets:
  "sockets (fire_due ok ts s) =
     sockets s @
       replicate (if ok \<and> \<not> isCleanedUp s
                  then length (filter (\<lambda>t. snd t \<le> ws_clock s) ts) else 0) Connecting"
proof (induction ok ts s rule: fire_due.induct)
  case (1 ok s)
  then show ?case by simp
next
  case (2 ok i due ts s)
  then show ?case
    by (simp add: reconnect_cb_simps replicate_app_Cons_same)
qed

lemma schedule_reconnect_simps:
  "ws_timers (schedule_reconnect s) = ws_timers s @ [(ws_next_timer s, ws_clock s + 3000)]"
  "sockets (schedule_reconnect s) = sockets s"
  "isCleanedUp (schedule_reconnect s) = isCleanedUp s"
  "ws_clock (schedule_reconnect s) = ws_clock s"
  "delivered (schedule_reconnect s) = delivered s"
  "sent (schedule_reconnect s) = sent s"
  "isConnected (schedule_reconnect s) = isConnected s"
  by (simp_all add: schedule_reconnect_def reconnect_delay_def)

lemma close_unexpected:
  assumes "i < length (sockets s)" and "\<not> isCleanedUp s"
  shows "hook_step ok (WsClose i) s =
     schedule_reconnect (s\<lparr>sockets := (sockets s)[i := Closed], isConnected := False\<rparr>)"
  using assms by (simp add: Let_def set_ready_def)

lemma delivered_step: "delivered (hook_step ok e s) = delivered s @ handed_over e s"
proof (cases e)
  case (WsMessage i d)
  then show ?thesis by (cases d) simp_all
next
  case (WsElapse d)
  then show ?thesis by (simp add: Let_def fire_due_simps)
next
  case Unmount
  then show ?thesis
    by (simp add: Let_def set_ready_def split: option.splits)
qed (simp_all add: Let_def set_ready_def schedule_reconnect_simps sendMessage_def
       split: option.splits)

lemma sent_step: "sent (hook_step ok e s) = sent s @ frames_sent e s"
proof (cases e)
  case (WsMessage i d)
  then show ?thesis by (cases d) simp_all
next
  case (WsElapse d)
  then show ?thesis by (simp add: Let_def fire_due_simps)
next
  case Unmount
  then show ?thesis
    by (simp add: Let_def set_ready_def split: option.splits)
qed (simp_all add: Let_def set_ready_def schedule_reconnect_simps sendMessage_def
       split: option.splits)

lemma filter_ws_timers_new:
  "filter (\<lambda>t. snd t \<le> c + d) (ts @ [(i, c + 3000)]) =
     filter (\<lambda>t. snd t \<le> c + d) ts @ (if 3000 \<le> d then [(i, c + (3000::nat))] else [])"
  by simp

lemma connected0_eval:
  "connected0 =
     \<lparr>isConnected = True, lastMessage = Some started_msg, isCleanedUp = False,
      sockets = [Open], wsRef = Some 0, reconnectTimeoutRef = None, ws_timers = [],
      ws_next_timer = 0, ws_clock = 0, delivered = [Some started_msg], sent = []\<rparr>"
  by (simp add: connected0_def hook_mount_def connect_def hook_unmounted_def set_ready_def)

lemma reconnected0_eval:
  "reconnected0 =
     \<lparr>isConnected = True, lastMessage = Some started_msg, isCleanedUp = False,
      sockets = [Closed, Open], wsRef = Some 1, reconnectTimeoutRef = Some 0,
      ws_timers = [], ws_next_timer = 1, ws_clock = 3000, delivered = [Some started_msg],
      sent = []\<rparr>"
  by (simp add: reconnected0_def connected0_eval set_ready_def schedule_reconnect_def
        reconnect_delay_def reconnect_cb_def connect_def)

text \<open>
  C9. When a socket closes and the hook has not been cleaned up, a reconnect is scheduled
  3000 milliseconds ahead, whatever the state and however many closures came before; no
  socket is made before that time has passed, and one is made when it has (a closure
  after the cleanup schedules nothing). Neither the opening of a socket nor the firing
  of the reconnect hands \<open>onMessage\<close> anything or sends anything: no event hands over
  more than the message that event itself carries, and nothing but the ping is ever
  sent to the server.
\<close>

theorem reconnect_fixed_delay_no_replay:
  "(i < length (sockets s) \<and> \<not> isCleanedUp s \<longrightarrow>
      ws_timers (hook_step ok (WsClose i) s) =
        ws_timers s @ [(ws_next_timer s, ws_clock s + 3000)] \<and>
      sockets (hook_step ok (WsClose i) s) = (sockets s)[i := Closed] \<and>
      sockets (hook_step True (WsElapse d) (hook_step ok (WsClose i) s)) =
        (sockets s)[i := Closed] @
          replicate (length (ws_due_after d s) + (if 3000 \<le> d then 1 else 0)) Connecting) \<and>
   (isCleanedUp s \<longrightarrow> ws_timers (hook_step ok (WsClose i) s) = ws_timers s) \<and>
   delivered (hook_step ok (WsOpen j) s) = delivered s \<and>
   sent (hook_step ok (WsOpen j) s) = sent s \<and>
   delivered (hook_step ok (WsElapse d) s) = delivered s \<and>
   sent (hook_step ok (WsElapse d) s) = sent s \<and>
   delivered (hook_step ok e s) = delivered s @ handed_over e s \<and>
   sent (hook_step ok e s) = sent s @ frames_sent e s"
proof (intro conjI impI)
  assume a: "i < length (sockets s) \<and> \<not> isCleanedUp s"
  let ?s' = "hook_step ok (WsClose i) s"
  have st: "?s' = schedule_reconnect (s\<lparr>sockets := (sockets s)[i := Closed], isConnected := False\<rparr>)"
    using a close_unexpected [of i s ok] by blast
  show timers: "ws_timers ?s' = ws_timers s @ [(ws_next_timer s, ws_clock s + 3000)]"
    unfolding st by (simp add: schedule_reconnect_simps)
  show socks: "sockets ?s' = (sockets s)[i := Closed]"
    unfolding st by (simp add: schedule_reconnect_simps)
  have clock: "ws_clock ?s' = ws_clock s"
    unfolding st by (simp add: schedule_reconnect_simps)
  have live: "\<not> isCleanedUp ?s'"
    unfolding st using a by (simp add: schedule_reconnect_simps)
  have el: "hook_step True (WsElapse d) ?s' =
      fire_due True (ws_timers ?s') (?s'\<lparr>ws_clock := ws_clock s + d\<rparr>)"
    unfolding hook_step.simps(5) Let_def clock by simp
  have "sockets (hook_step True (WsElapse d) ?s') =
      sockets ?s' @ replicate (length (filter (\<lambda>t. snd t \<le> ws_clock s + d) (ws_timers ?s'))) Connecting"
    unfolding el using live by (simp add: fire_due_sockets del: hook_step.simps)
  also have "filter (\<lambda>t. snd t \<le> ws_clock s + d) (ws_timers ?s') =
      ws_due_after d s @ (if 3000 \<le> d then [(ws_next_timer s, ws_clock s + 3000)] else [])"
    unfolding timers ws_due_after_def by (rule filter_ws_timers_new)
  finally show "sockets (hook_step True (WsElapse d) ?s') =
        (sockets s)[i := Closed] @
          replicate (length (ws_due_after d s) + (if 3000 \<le> d then 1 else 0)) Connecting"
    by (simp add: socks del: hook_step.simps)
next
  assume "isCleanedUp s"
  then show "ws_timers (hook_step ok (WsClose i) s) = ws_timers s"
    by (simp add: Let_def set_ready_def)
next
  show "delivered (hook_step ok (WsOpen j) s) = delivered s"
    unfolding delivered_step by simp
  show "sent (hook_step ok (WsOpen j) s) = sent s"
    unfolding sent_step by simp
  show "delivered (hook_step ok (WsElapse d) s) = delivered s"
    unfolding delivered_step by simp
  show "sent (hook_step ok (WsElapse d) s) = sent s"
    unfolding sent_step by simp
  show "delivered (hook_step ok e s) = delivered s @ handed_over e s"
    by (rule delivered_step)
  show "sent (hook_step ok e s) = sent s @ frames_sent e s"
    by (rule sent_step)
qed

theorem reconnect_fixed_delay_no_replay_witness:
  "0 < length (sockets connected0) \<and> \<not> isCleanedUp connected0 \<and>
   ws_timers (hook_step True (WsClose 0) connected0) = [(0, 3000)] \<and>
   sockets (hook_step True (WsElapse 2999) (hook_step True (WsClose 0) connected0)) = [Closed] \<and>
   sockets (hook_step True (WsElapse 3000) (hook_step True (WsClose 0) connected0)) =
     [Closed, Connecting] \<and>
   1 < length (sockets reconnected0) \<and> \<not> isCleanedUp reconnected0 \<and>
   ws_clock reconnected0 = 3000 \<and>
   ws_timers (hook_step True (WsClose 1) reconnected0) = [(1, 6000)] \<and>
   delivered (hook_step True (WsOpen 1) (hook_run True [WsClose 0, WsElapse 3000] connected0)) =
     delivered (hook_run True [WsClose 0, WsElapse 3000] connected0) \<and>
   isCleanedUp (hook_step True Unmount connected0) \<and>
   ws_timers (hook_step True (WsClose 0) (hook_step True Unmount connected0)) = []"
proof -
  have c: "sockets connected0 = [Open]" "\<not> isCleanedUp connected0" "ws_timers connected0 = []"
    "ws_next_timer connected0 = 0" "ws_clock connected0 = 0"
    by (simp_all add: connected0_eval)
  have r: "sockets reconnected0 = [Closed, Open]" "\<not> isCleanedUp reconnected0"
    "ws_timers reconnected0 = []" "ws_next_timer reconnected0 = 1" "ws_clock reconnected0 = 3000"
    by (simp_all add: reconnected0_eval)
  have d: "ws_due_after 2999 connected0 = []" "ws_due_after 3000 connected0 = []"
    by (simp_all add: ws_due_after_def c)
  have u: "isCleanedUp (hook_step True Unmount connected0)"
    "ws_timers (hook_step True Unmount connected0) = []"
    by (simp_all add: connected0_eval set_ready_def)
  show ?thesis
    using reconnect_fixed_delay_no_replay
        [where s = "hook_step True Unmount connected0" and i = 0 and ok = True]
      reconnect_fixed_delay_no_replay
        [where s = connected0 and i = 0 and ok = True and d = 2999
           and e = "WsOpen 1"]
      reconnect_fixed_delay_no_replay
        [where s = connected0 and i = 0 and ok = True and d = 3000]
      reconnect_fixed_delay_no_replay
        [where s = reconnected0 and i = 1 and ok = True]
      reconnect_fixed_delay_no_replay
        [where s = "hook_run True [WsClose 0, WsElapse 3000] connected0" and ok = True
           and j = 1]
    by (simp add: c r d u del: hook_step.simps hook_run.simps)
qed

end
